theory Spec2Isabelle
  imports Main "HOL-Library.Word"
begin

unbundle bit_operations_syntax

section \<open>latebloom: module state and diagnostics\<close>

text \<open>
  The module variables of \<^verbatim>\<open>cfuncs.c\<close> are the fields of one record. The five
  configuration variables (\<^verbatim>\<open>unsigned long SleepValue\<close>, \<^verbatim>\<open>long lb_DebugLevel\<close>, ...)
  are 64-bit in the source; the parser only ever stores values between \<open>-1\<close> and \<open>9999\<close> in
  them, so they are integers here, and the two places where their machine representation
  shows are written out: the unsigned comparison of the post-processing (\<open>to_ulong\<close>) and the
  32-bit reads of the hook (\<open>low32\<close>). Pointers and addresses are 64-bit words.

  \<^verbatim>\<open>printf\<close> and \<^verbatim>\<open>IOSleep\<close> are recorded, in order, in the field \<open>events\<close>; the format
  strings are the source's without the common prefix and the newlines.
\<close>

datatype arg = ArgInt int | ArgStr string

datatype event = Printf string "arg list" | IOLog string "arg list" | IOSleep nat

record lb_state =
  BootArgs :: "64 word"
  lb_jump_address :: "64 word"
  WhichPattern :: nat
  lb_PCI_counter :: "64 word"
  ProbeAddress :: "64 word"
  SleepValue :: int
  lb_DebugLevel :: int
  lb_RandRange :: int
  CurrentThread :: "64 word"
  lb_AltSleepValue :: int
  lb_AltRandRange :: int
  fBaseDev :: "32 word"
  MajorDev :: int
  fDeviceNode :: "64 word"
  events :: "event list"

text \<open>The static initialisers of \<^verbatim>\<open>cfuncs.c\<close>.\<close>

definition initial_state :: lb_state where
  "initial_state =
     \<lparr> BootArgs = 0, lb_jump_address = 0, WhichPattern = 0, lb_PCI_counter = 0,
       ProbeAddress = 0, SleepValue = 0, lb_DebugLevel = 0, lb_RandRange = 0,
       CurrentThread = 0, lb_AltSleepValue = -1, lb_AltRandRange = -1,
       fBaseDev = 0, MajorDev = 0, fDeviceNode = 0, events = [] \<rparr>"

definition emit :: "event \<Rightarrow> lb_state \<Rightarrow> lb_state" where
  "emit e st = st\<lparr>events := events st @ [e]\<rparr>"

definition MILLISECONDS_PER_SECOND :: nat where
  "MILLISECONDS_PER_SECOND = 1000"

definition HOOK_WINDOW_SIZE :: nat where
  "HOOK_WINDOW_SIZE = 3144"

definition MAX_ARG_DIGITS :: nat where
  "MAX_ARG_DIGITS = 4"

definition DEFAULT_SLEEP :: int where
  "DEFAULT_SLEEP = 60"

definition BIGSUR_XNU_MAJOR_VERSION :: int where
  "BIGSUR_XNU_MAJOR_VERSION = 20"

section \<open>Boot-argument parsing\<close>

text \<open>
  The boot-args are a C string: the list holds the bytes before the terminator, and a read
  at or past the end of the list is the terminating NUL. A pointer into the string is the
  suffix that starts there.
\<close>

definition ch :: "string \<Rightarrow> nat \<Rightarrow> char" where
  "ch p k = (if k < length p then p ! k else CHR 0x00)"

definition is_digit :: "char \<Rightarrow> bool" where
  "is_digit c = ((48::nat) \<le> of_char c \<and> of_char c \<le> (57::nat))"

definition digit_val :: "char \<Rightarrow> int" where
  "digit_val c = int (of_char c) - 48"

text \<open>
  The digit loop of \<^verbatim>\<open>ExtractArgValue\<close> and of \<^verbatim>\<open>EXTRACT_LBLOOM_VALUE\<close>:
  \<^verbatim>\<open>for (j = 0; j < MAX_ARG_DIGITS && p[j] >= '0' && p[j] <= '9'; ++j) lbval = lbval * 10 + (p[j] - '0');\<close>
  It returns the final \<open>j\<close> with the value.
\<close>

function digit_loop :: "string \<Rightarrow> nat \<Rightarrow> int \<Rightarrow> nat \<times> int" where
  "digit_loop p j lbval =
     (if j < MAX_ARG_DIGITS \<and> is_digit (ch p j)
      then digit_loop p (j + 1) (lbval * 10 + digit_val (ch p j))
      else (j, lbval))"
  by pat_completeness auto
termination
  by (relation "measure (\<lambda>(p, j, lbval). MAX_ARG_DIGITS - j)") auto

declare digit_loop.simps [simp del]

definition ExtractArgValue :: "string \<Rightarrow> int" where
  "ExtractArgValue StartPos = snd (digit_loop StartPos 0 0)"

text \<open>
  The loop of the \<^verbatim>\<open>latebloom=\<close> branch starts from \<open>-1\<close> and resets it to \<open>0\<close> at the
  first digit.
\<close>

function latebloom_loop :: "string \<Rightarrow> nat \<Rightarrow> int \<Rightarrow> nat \<times> int" where
  "latebloom_loop p j lbval =
     (if j < MAX_ARG_DIGITS \<and> is_digit (ch p j)
      then latebloom_loop p (j + 1)
             ((if lbval = -1 then 0 else lbval) * 10 + digit_val (ch p j))
      else (j, lbval))"
  by pat_completeness auto
termination
  by (relation "measure (\<lambda>(p, j, lbval). MAX_ARG_DIGITS - j)") auto

declare latebloom_loop.simps [simp del]

text \<open>
  \<^verbatim>\<open>BOOTARG_MATCH(zstr)\<close> is \<^verbatim>\<open>!strncmp(&BootArgs[i], zstr, sizeof(zstr) - 1)\<close>: the
  key has no NUL, so the comparison succeeds exactly when the next \<open>length zstr\<close> bytes of
  the boot-args are the key.
\<close>

definition BOOTARG_MATCH :: "string \<Rightarrow> nat \<Rightarrow> string \<Rightarrow> bool" where
  "BOOTARG_MATCH bootargs i zstr = (take (length zstr) (drop i bootargs) = zstr)"

text \<open>
  \<^verbatim>\<open>EXTRACT_LBLOOM_VALUE\<close>: \<^verbatim>\<open>ptr += j + 1; lbval = 0;\<close> and the digit loop. The
  result is the new \<open>ptr\<close>, the new \<open>j\<close> and \<open>lbval\<close>.
\<close>

definition EXTRACT_LBLOOM_VALUE :: "string \<Rightarrow> nat \<Rightarrow> string \<times> nat \<times> int" where
  "EXTRACT_LBLOOM_VALUE ptr j =
     (let ptr' = drop (j + 1) ptr; (j', lbval) = digit_loop ptr' 0 0 in (ptr', j', lbval))"

text \<open>
  The four optional fields of \<^verbatim>\<open>lbloom=\<close>, each guarded by \<^verbatim>\<open>if (ptr[j] == ',')\<close>.
  The state of the walk is \<open>(ptr, j)\<close> with the module state.
\<close>

definition lbloom_range :: "string \<times> nat \<times> lb_state \<Rightarrow> string \<times> nat \<times> lb_state" where
  "lbloom_range w =
     (case w of (ptr, j, st) \<Rightarrow>
        if ch ptr j = CHR '',''
        then (case EXTRACT_LBLOOM_VALUE ptr j of
                (ptr', j', lbval) \<Rightarrow> (ptr', j', st\<lparr>lb_RandRange := lbval\<rparr>))
        else (ptr, j, st))"

definition lbloom_debug :: "string \<times> nat \<times> lb_state \<Rightarrow> string \<times> nat \<times> lb_state" where
  "lbloom_debug w =
     (case w of (ptr, j, st) \<Rightarrow>
        if ch ptr j = CHR '',''
        then (case EXTRACT_LBLOOM_VALUE ptr j of
                (ptr', j', lbval) \<Rightarrow> (ptr', j', st\<lparr>lb_DebugLevel := lbval\<rparr>))
        else (ptr, j, st))"

definition lbloom_delay2 :: "string \<times> nat \<times> lb_state \<Rightarrow> string \<times> nat \<times> lb_state" where
  "lbloom_delay2 w =
     (case w of (ptr, j, st) \<Rightarrow>
        if ch ptr j = CHR '',''
        then (case EXTRACT_LBLOOM_VALUE ptr j of
                (ptr', j', lbval) \<Rightarrow>
                  (ptr', j', st\<lparr>lb_AltSleepValue := (if j' = 0 then SleepValue st else lbval)\<rparr>))
        else (ptr, j, st))"

definition lbloom_range2 :: "string \<times> nat \<times> lb_state \<Rightarrow> string \<times> nat \<times> lb_state" where
  "lbloom_range2 w =
     (case w of (ptr, j, st) \<Rightarrow>
        if ch ptr j = CHR '',''
        then (case EXTRACT_LBLOOM_VALUE ptr j of
                (ptr', j', lbval) \<Rightarrow> (ptr', j', st\<lparr>lb_AltRandRange := lbval\<rparr>))
        else (ptr, j, st))"

text \<open>
  The branches of the scanning loop. A result \<open>Inl st\<close> is the early \<^verbatim>\<open>return\<close> of
  \<^verbatim>\<open>latebloom_start\<close> (no hook is installed) with the module state at that point;
  \<open>Inr st\<close> goes on.
\<close>

definition arg_latebloom :: "string \<Rightarrow> lb_state \<Rightarrow> lb_state + lb_state" where
  "arg_latebloom ptr st =
     (case latebloom_loop ptr 0 (-1) of
        (j, lbval) \<Rightarrow>
          if lbval \<le> 0
          then Inl (emit (IOSleep (4 * MILLISECONDS_PER_SECOND))
                      (emit (Printf ''latebloom=0, NOT INSTALLING HOOK'' []) st))
          else Inr (st\<lparr>SleepValue := lbval\<rparr>))"

definition arg_lbloom :: "string \<Rightarrow> lb_state \<Rightarrow> lb_state + lb_state" where
  "arg_lbloom ptr st =
     (let st0 = st\<lparr>SleepValue := 0, lb_RandRange := 0, lb_DebugLevel := 0\<rparr> in
      case digit_loop ptr 0 0 of
        (j, lbval) \<Rightarrow>
          if lbval = 0
          then Inl (emit (IOSleep (4 * MILLISECONDS_PER_SECOND))
                      (emit (Printf ''lbloom=0, NOT INSTALLING HOOK'' []) st0))
          else Inr (snd (snd (lbloom_range2 (lbloom_delay2 (lbloom_debug (lbloom_range
                      (ptr, j, st0\<lparr>SleepValue := lbval\<rparr>))))))))"

definition arg_step :: "string \<Rightarrow> nat \<Rightarrow> lb_state \<Rightarrow> lb_state + lb_state" where
  "arg_step bootargs i st =
     (if BOOTARG_MATCH bootargs i ''latebloom=''
      then arg_latebloom (drop (i + 10) bootargs) st
      else if BOOTARG_MATCH bootargs i ''lb_debug=''
      then (let v = ExtractArgValue (drop (i + 9) bootargs) in
            Inr (emit (Printf ''lb_debug set to %ld'' [ArgInt v]) (st\<lparr>lb_DebugLevel := v\<rparr>)))
      else if BOOTARG_MATCH bootargs i ''lb_range=''
      then (let v = ExtractArgValue (drop (i + 9) bootargs) in
            Inr (emit (Printf ''lb_range set to %ld'' [ArgInt v]) (st\<lparr>lb_RandRange := v\<rparr>)))
      else if BOOTARG_MATCH bootargs i ''lb_delay2=''
      then (let v = ExtractArgValue (drop (i + 10) bootargs) in
            Inr (emit (Printf ''lb_delay2 set to %ld'' [ArgInt v]) (st\<lparr>lb_AltSleepValue := v\<rparr>)))
      else if BOOTARG_MATCH bootargs i ''lb_range2=''
      then (let v = ExtractArgValue (drop (i + 10) bootargs) in
            Inr (emit (Printf ''lb_range2 set to %ld'' [ArgInt v]) (st\<lparr>lb_AltRandRange := v\<rparr>)))
      else if BOOTARG_MATCH bootargs i ''lbloom=''
      then arg_lbloom (drop (i + 7) bootargs) st
      else Inr st)"

text \<open>\<^verbatim>\<open>for (i = 0; BootArgs[i] != '\0'; ++i)\<close>\<close>

function scan_args :: "string \<Rightarrow> nat \<Rightarrow> lb_state \<Rightarrow> lb_state + lb_state" where
  "scan_args bootargs i st =
     (if ch bootargs i \<noteq> CHR 0x00
      then (case arg_step bootargs i st of
              Inl st' \<Rightarrow> Inl st'
            | Inr st' \<Rightarrow> scan_args bootargs (i + 1) st')
      else Inr st)"
  by pat_completeness auto
termination
  by (relation "measure (\<lambda>(bootargs, i, st). length bootargs - i)")
     (auto simp: ch_def split: if_splits)

declare scan_args.simps [simp del]

text \<open>
  The defaults applied after the scan. \<^verbatim>\<open>lb_RandRange > SleepValue\<close> compares a
  \<^verbatim>\<open>long\<close> with an \<^verbatim>\<open>unsigned long\<close>, so the left side is converted to unsigned.
\<close>

definition to_ulong :: "int \<Rightarrow> int" where
  "to_ulong x = x mod 2 ^ 64"

definition default_delay1 :: "lb_state \<Rightarrow> lb_state" where
  "default_delay1 st =
     (if SleepValue st = 0
      then (let st' = st\<lparr>SleepValue := DEFAULT_SLEEP\<rparr> in
            emit (Printf ''latebloom boot-arg not set, Phase 1 using %lu ms default.''
                    [ArgInt (SleepValue st')]) st')
      else emit (Printf ''based on boot-args, Phase 1 using delay of %lu ms.''
                   [ArgInt (SleepValue st)]) st)"

definition default_delay2 :: "lb_state \<Rightarrow> lb_state" where
  "default_delay2 st =
     (if lb_AltSleepValue st \<noteq> -1
      then emit (Printf ''based on boot-args, Phase 2 using delay of %lu ms.''
                   [ArgInt (lb_AltSleepValue st)]) st
      else (let st' = st\<lparr>lb_AltSleepValue := SleepValue st\<rparr> in
            emit (Printf ''No Phase 2 delay specified, using Phase 1 delay of %lu ms.''
                    [ArgInt (lb_AltSleepValue st')]) st'))"

definition clamp_range1 :: "lb_state \<Rightarrow> lb_state" where
  "clamp_range1 st =
     (if lb_RandRange st \<noteq> 0
      then (let st1 =
                  (if to_ulong (lb_RandRange st) > SleepValue st
                   then (let st' = st\<lparr>lb_RandRange := SleepValue st\<rparr> in
                         emit (Printf ''lb_range larger than lb_sleep, truncating to %ld''
                                 [ArgInt (lb_RandRange st')]) st')
                   else st)
            in emit (Printf ''Phase 1 delays will be random, between %lu and %lu ms.''
                       [ArgInt (SleepValue st1 - lb_RandRange st1),
                        ArgInt (SleepValue st1 + lb_RandRange st1)]) st1)
      else st)"

definition clamp_range2 :: "lb_state \<Rightarrow> lb_state" where
  "clamp_range2 st =
     (if lb_AltRandRange st \<noteq> 0
      then (let st1 = (if lb_AltRandRange st = -1
                       then st\<lparr>lb_AltRandRange := lb_RandRange st\<rparr> else st);
                st2 = (if lb_AltRandRange st1 > lb_AltSleepValue st1
                       then (let st' = st1\<lparr>lb_AltRandRange := lb_AltSleepValue st1\<rparr> in
                             emit (Printf ''lb_range2 larger than lb_delay2, truncating to %ld''
                                     [ArgInt (lb_AltRandRange st')]) st')
                       else st1)
            in if lb_AltRandRange st2 \<noteq> 0
               then emit (Printf ''Phase 2 delays will be random, between %lu and %lu ms.''
                            [ArgInt (lb_AltSleepValue st2 - lb_AltRandRange st2),
                             ArgInt (lb_AltSleepValue st2 + lb_AltRandRange st2)]) st2
               else st2)
      else st)"

definition apply_defaults :: "lb_state \<Rightarrow> lb_state" where
  "apply_defaults st = clamp_range2 (clamp_range1 (default_delay2 (default_delay1 st)))"

text \<open>
  The parsing block of \<^verbatim>\<open>latebloom_start\<close>: the scan, then the defaults. \<open>ParseConfig\<close>
  runs it from the initial module state.
\<close>

definition parse_boot_args :: "string \<Rightarrow> lb_state \<Rightarrow> lb_state + lb_state" where
  "parse_boot_args bootargs st =
     (case scan_args bootargs 0 st of
        Inl st' \<Rightarrow> Inl st'
      | Inr st' \<Rightarrow> Inr (apply_defaults st'))"

definition ParseConfig :: "string \<Rightarrow> lb_state + lb_state" where
  "ParseConfig bootargs = parse_boot_args bootargs initial_state"

section \<open>Notions used to state the parser's properties\<close>

text \<open>The five configuration variables of a module state, in the order of \<^verbatim>\<open>lbloom=\<close>.\<close>

definition ConfigSet :: "lb_state \<Rightarrow> int \<times> int \<times> int \<times> int \<times> int" where
  "ConfigSet st =
     (SleepValue st, lb_RandRange st, lb_DebugLevel st, lb_AltSleepValue st, lb_AltRandRange st)"

text \<open>The number of bytes before the terminating NUL: the positions the scan visits.\<close>

definition strlen :: "string \<Rightarrow> nat" where
  "strlen s = length (takeWhile (\<lambda>c. c \<noteq> CHR 0x00) s)"

text \<open>
  Position \<open>i\<close> holds a delay key (\<^verbatim>\<open>latebloom=\<close> or \<^verbatim>\<open>lbloom=\<close>) whose delay field
  reads as zero: it has no leading digit, or its first (at most four) digits are all zero.
\<close>

definition aborts_at :: "string \<Rightarrow> nat \<Rightarrow> bool" where
  "aborts_at bootargs i =
     (BOOTARG_MATCH bootargs i ''latebloom='' \<and> ExtractArgValue (drop (i + 10) bootargs) = 0
      \<or> BOOTARG_MATCH bootargs i ''lbloom='' \<and> ExtractArgValue (drop (i + 7) bootargs) = 0)"

text \<open>
  The reading of the specification under which only an explicit zero aborts: the delay field
  of a delay key starts with a digit and reads as zero.
\<close>

definition spec_explicit_zero :: "string \<Rightarrow> bool" where
  "spec_explicit_zero p = (is_digit (ch p 0) \<and> ExtractArgValue p = 0)"

definition spec_explicit_zero_key :: "string \<Rightarrow> bool" where
  "spec_explicit_zero_key bootargs =
     list_ex (\<lambda>i. BOOTARG_MATCH bootargs i ''latebloom='' \<and> spec_explicit_zero (drop (i + 10) bootargs)
                 \<or> BOOTARG_MATCH bootargs i ''lbloom='' \<and> spec_explicit_zero (drop (i + 7) bootargs))
       [0..<strlen bootargs]"

text \<open>
  A field of the composite key: at most \<open>MAX_ARG_DIGITS\<close> decimal digits, possibly none, with
  its decimal value (\<open>0\<close> for the empty field). What follows the last field is neither a
  digit nor a comma (the end of the string, or a space).
\<close>

definition is_field :: "string \<Rightarrow> bool" where
  "is_field f = (length f \<le> MAX_ARG_DIGITS \<and> list_all is_digit f)"

definition field_val :: "string \<Rightarrow> int" where
  "field_val f = foldl (\<lambda>v c. v * 10 + digit_val c) 0 f"

definition field_end :: "string \<Rightarrow> bool" where
  "field_end e = (\<not> is_digit (ch e 0) \<and> ch e 0 \<noteq> CHR '','')"

text \<open>The range of values the scan can leave in the configuration variables.\<close>

definition cfg_inv :: "lb_state \<Rightarrow> bool" where
  "cfg_inv st =
     (0 \<le> SleepValue st \<and> SleepValue st < 10000 \<and>
      0 \<le> lb_RandRange st \<and> lb_RandRange st < 10000 \<and>
      -1 \<le> lb_AltSleepValue st \<and> lb_AltSleepValue st < 10000 \<and>
      -1 \<le> lb_AltRandRange st \<and> lb_AltRandRange st < 10000)"

definition inv_result :: "lb_state + lb_state \<Rightarrow> bool" where
  "inv_result r = (case r of Inl _ \<Rightarrow> True | Inr st' \<Rightarrow> cfg_inv st')"

section \<open>The hook\<close>

text \<open>
  The assembly of \<^verbatim>\<open>_latebloom_hook\<close>. What the code reads from the machine on one run is
  an input: the current thread (\<^verbatim>\<open>%gs:0x10\<close>), the two time-stamp counter values that the
  two \<^verbatim>\<open>rdtsc\<close> of the jitter path return (\<^verbatim>\<open>EDX:EAX\<close>), and what \<^verbatim>\<open>devfs_make_node\<close>
  returns if it is called. The registers are 32-bit where the code uses their 32-bit names.
\<close>

record hook_in =
  gs_thread :: "64 word"
  tsc_first :: "64 word"
  tsc_second :: "64 word"
  devfs_node :: "64 word"

text \<open>\<^verbatim>\<open>movl var(%rip), %edi\<close> and \<^verbatim>\<open>cmpl $0, var(%rip)\<close> read the low 32 bits of a variable.\<close>

definition low32 :: "int \<Rightarrow> 32 word" where
  "low32 x = word_of_int x"

text \<open>\<^verbatim>\<open>rdtsc\<close> leaves the low 32 bits of the counter in \<^verbatim>\<open>EAX\<close>.\<close>

definition eax_of :: "64 word \<Rightarrow> 32 word" where
  "eax_of tsc = ucast tsc"

text \<open>
  \<^verbatim>\<open>rdtsc; xorl %edx,%edx; divl range\<close>: the remainder of the unsigned division of
  \<^verbatim>\<open>EAX\<close> by the range, in \<^verbatim>\<open>EDX\<close>. The code reaches it only with a nonzero range.
\<close>

definition tsc_remainder :: "64 word \<Rightarrow> 32 word \<Rightarrow> 32 word" where
  "tsc_remainder tsc rng = eax_of tsc mod rng"

text \<open>
  \<^verbatim>\<open>CTcontinue\<close>: \<^verbatim>\<open>movl %edx,%ebx; rdtsc; movl %ebx,%edx; negl %edx; testl $0x01,%eax;
  cmovnel %edx,%ebx; addl %ebx,%edi\<close>.
\<close>

definition CTcontinue :: "32 word \<Rightarrow> 32 word \<Rightarrow> 64 word \<Rightarrow> 32 word" where
  "CTcontinue edi edx tsc =
     (let ebx = edx;
          eax = eax_of tsc;
          edx' = - ebx;
          ebx' = (if eax AND 1 \<noteq> 0 then edx' else ebx)
      in edi + ebx')"

text \<open>The value in \<^verbatim>\<open>%edi\<close> at \<^verbatim>\<open>LB_DoSleep\<close> on the jitter path, for a base and a range.\<close>

definition hook_delay :: "int \<Rightarrow> int \<Rightarrow> hook_in \<Rightarrow> 32 word" where
  "hook_delay base rng i =
     CTcontinue (low32 base) (tsc_remainder (tsc_first i) (low32 rng)) (tsc_second i)"

text \<open>\<^verbatim>\<open>incl _lb_PCI_counter(%rip)\<close> increments the low 32 bits of the 64-bit counter.\<close>

definition incl :: "64 word \<Rightarrow> 64 word" where
  "incl c = (c AND 0xFFFFFFFF00000000) OR ucast ((ucast c :: 32 word) + 1)"

text \<open>
  \<^verbatim>\<open>LB_DoSleep\<close>: the sleep, the loop counter, and the debug line when bit 0 of
  \<^verbatim>\<open>lb_DebugLevel\<close> is set.
\<close>

definition LB_DoSleep :: "hook_in \<Rightarrow> 32 word \<Rightarrow> lb_state \<Rightarrow> lb_state" where
  "LB_DoSleep i edi st =
     (let st1 = emit (IOSleep (unat edi)) st;
          st2 = st1\<lparr>lb_PCI_counter := incl (lb_PCI_counter st1)\<rparr>
      in if low32 (lb_DebugLevel st2) AND 1 \<noteq> 0
         then emit (Printf
                ''PCI LOOP # %2ld %s delay %4ld ms (%08lx) *_*_*_*_*_*_*_*_*_*_*_*_*_*_*_*_*_*_*_*_*_*_*_''
                      [ArgInt (uint (ucast (lb_PCI_counter st2) :: 32 word)),
                       ArgStr (if gs_thread i \<noteq> CurrentThread st2
                               then ''EXTERNAL'' else ''ONBOARD''),
                       ArgInt (uint edi),
                       ArgInt (uint (ucast (gs_thread i) :: 32 word))]) st2
         else st2)"

definition LB_Phase1 :: "hook_in \<Rightarrow> lb_state \<Rightarrow> lb_state" where
  "LB_Phase1 i st =
     (let edi = low32 (SleepValue st) in
      if low32 (lb_RandRange st) = 0 then LB_DoSleep i edi st
      else LB_DoSleep i (hook_delay (SleepValue st) (lb_RandRange st) i) st)"

definition LB_Phase2 :: "hook_in \<Rightarrow> lb_state \<Rightarrow> lb_state" where
  "LB_Phase2 i st =
     (let st1 = (if fDeviceNode st \<noteq> 0 then st else st\<lparr>fDeviceNode := devfs_node i\<rparr>);
          edi = low32 (lb_AltSleepValue st1)
      in if edi = 0 then st1
         else if low32 (lb_AltRandRange st1) = 0 then LB_DoSleep i edi st1
         else LB_DoSleep i (hook_delay (lb_AltSleepValue st1) (lb_AltRandRange st1) i) st1)"

definition latebloom_hook :: "hook_in \<Rightarrow> lb_state \<Rightarrow> lb_state" where
  "latebloom_hook i st =
     (let st1 = (if CurrentThread st \<noteq> 0 then st else st\<lparr>CurrentThread := gs_thread i\<rparr>);
          rax = CurrentThread st1
      in if rax = gs_thread i then LB_Phase1 i st1 else LB_Phase2 i st1)"

section \<open>The pattern scan\<close>

definition BytePattern113 :: "8 word list" where
  "BytePattern113 =
     [0x48, 0xc7, 0x45, 0xd0, 0x00, 0x00, 0x00, 0x00, 0x49, 0x8b, 0x06, 0x4c, 0x89, 0xf7]"

definition BytePattern115b2 :: "8 word list" where
  "BytePattern115b2 =
     [0x48, 0xc7, 0x45, 0xd0, 0x00, 0x00, 0x00, 0x00, 0x49, 0x8b, 0x07, 0x4c, 0x89, 0xff]"

definition BytePattern12b3 :: "8 word list" where
  "BytePattern12b3 =
     [0x48, 0xc7, 0x45, 0xc8, 0x00, 0x00, 0x00, 0x00, 0x49, 0x8b, 0x07, 0x4c, 0x89, 0xff]"

text \<open>
  The catalogue. Each entry of the source pairs the bytes with their \<^verbatim>\<open>sizeof\<close>, here the
  length of the list; the entry \<^verbatim>\<open>{ NULL, 0 }\<close> that ends the table is the end of the
  list.
\<close>

definition BytePatterns :: "8 word list list" where
  "BytePatterns = [BytePattern113, BytePattern115b2, BytePattern12b3]"

type_synonym memory = "64 word \<Rightarrow> 8 word"

text \<open>\<^verbatim>\<open>!memcmp(ptr, pat, size)\<close>: the \<open>size\<close> bytes of memory at \<open>ptr\<close> are the pattern's.\<close>

definition memcmp_eq :: "memory \<Rightarrow> 64 word \<Rightarrow> 8 word list \<Rightarrow> bool" where
  "memcmp_eq mem ptr pat = (map (\<lambda>k. mem (ptr + of_nat k)) [0..<length pat] = pat)"

text \<open>
  The inner loop, over the catalogue, at one address. It returns \<^verbatim>\<open>WhichPattern\<close> and
  \<^verbatim>\<open>lb_jump_address\<close> as it leaves them.
\<close>

function pattern_loop :: "memory \<Rightarrow> 64 word \<Rightarrow> nat \<Rightarrow> 64 word \<Rightarrow> nat \<times> 64 word" where
  "pattern_loop mem ptr w ja =
     (if w < length BytePatterns
      then (if memcmp_eq mem ptr (BytePatterns ! w) then (w, ptr)
            else pattern_loop mem ptr (w + 1) ja)
      else (w, ja))"
  by pat_completeness auto
termination
  by (relation "measure (\<lambda>(mem, ptr, w, ja). length BytePatterns - w)") auto

declare pattern_loop.simps [simp del]

text \<open>
  The outer loop:
  \<^verbatim>\<open>for (i = 0; i < HOOK_WINDOW_SIZE && lb_jump_address == 0; ++i, ++ptr)\<close>.
\<close>

function window_loop :: "memory \<Rightarrow> nat \<Rightarrow> 64 word \<Rightarrow> nat \<times> 64 word \<Rightarrow> nat \<times> 64 word" where
  "window_loop mem i ptr (w, ja) =
     (if i < HOOK_WINDOW_SIZE \<and> ja = 0
      then window_loop mem (i + 1) (ptr + 1) (pattern_loop mem ptr 0 ja)
      else (w, ja))"
  by pat_completeness auto
termination
  by (relation "measure (\<lambda>(mem, i, ptr, wj). HOOK_WINDOW_SIZE - i)") auto

declare window_loop.simps [simp del]

text \<open>The scan from \<^verbatim>\<open>ProbeAddress\<close>, on the module state.\<close>

definition find_hook :: "memory \<Rightarrow> lb_state \<Rightarrow> lb_state" where
  "find_hook mem st =
     (case window_loop mem 0 (ProbeAddress st) (WhichPattern st, lb_jump_address st) of
        (w, ja) \<Rightarrow> st\<lparr>WhichPattern := w, lb_jump_address := ja\<rparr>)"

section \<open>Notions used to state the properties of the hook and of the scan\<close>

text \<open>The durations of the sleeps in a list of events, in order.\<close>

fun sleeps :: "event list \<Rightarrow> nat list" where
  "sleeps [] = []"
| "sleeps (IOSleep n # es) = n # sleeps es"
| "sleeps (e # es) = sleeps es"

text \<open>Some signature of the catalogue matches the bytes at an address.\<close>

definition matches_at :: "memory \<Rightarrow> 64 word \<Rightarrow> bool" where
  "matches_at mem p = list_ex (memcmp_eq mem p) BytePatterns"

text \<open>
  A memory with two signatures in the window from \<open>0x1000\<close>: the third entry of the
  catalogue, \<^verbatim>\<open>BytePattern12b3\<close>, at offset 0, and the first entry, \<^verbatim>\<open>BytePattern113\<close>,
  at offset 20.
\<close>

definition two_signatures :: memory where
  "two_signatures a =
     (if a - 0x1000 < 14 then BytePattern12b3 ! unat (a - 0x1000)
      else if a - 0x1014 < 14 then BytePattern113 ! unat (a - 0x1014)
      else 0)"


section \<open>Kernel symbol lookup\<close>

text \<open>
  \<^verbatim>\<open>klookup.c\<close> reads the running kernel's Mach-O image through typed pointers. The image
  is a record of views, one for each field the code reads: the value of that field of the
  structure at an address. \<open>seg_segname\<close> and \<open>cstring\<close> give the C string that starts at
  the field or address (the bytes before its NUL), which is what \<^verbatim>\<open>strcmp\<close> compares.
  \<open>printf_addr\<close> is the address of \<^verbatim>\<open>printf\<close> and \<open>printf_unslid\<close> what
  \<^verbatim>\<open>vm_kernel_unslide_or_perm_external\<close> stores for it. Addresses are 64-bit words, and
  pointer arithmetic wraps around as the \<^verbatim>\<open>uint64_t\<close> arithmetic of the source does.
\<close>

record kernel =
  version_major :: int
  printf_addr :: "64 word"
  printf_unslid :: "64 word"
  mh_magic :: "64 word \<Rightarrow> 32 word"
  mh_sizeofcmds :: "64 word \<Rightarrow> 32 word"
  lc_cmd :: "64 word \<Rightarrow> 32 word"
  lc_cmdsize :: "64 word \<Rightarrow> 32 word"
  seg_segname :: "64 word \<Rightarrow> string"
  seg_vmaddr :: "64 word \<Rightarrow> 64 word"
  seg_fileoff :: "64 word \<Rightarrow> 64 word"
  symtab_symoff :: "64 word \<Rightarrow> 32 word"
  symtab_nsyms :: "64 word \<Rightarrow> 32 word"
  symtab_stroff :: "64 word \<Rightarrow> 32 word"
  nlist_n_strx :: "64 word \<Rightarrow> 32 word"
  nlist_n_value :: "64 word \<Rightarrow> 64 word"
  cstring :: "64 word \<Rightarrow> string"

text \<open>
  The constants of \<^verbatim>\<open>klookup.c\<close>, and those it takes from the system's Mach-O headers
  (\<^verbatim>\<open><mach-o/loader.h>\<close>, \<^verbatim>\<open><mach-o/nlist.h>\<close>) with the values the 64-bit Mach-O
  format fixes for them: the magic number, the two command types, and the sizes of the
  header, of a segment command and of a name-list entry.
\<close>

definition KERNEL_BASE :: "64 word" where
  "KERNEL_BASE = 0xffffff8000200000"

definition LB_SEG_PRELINK_TEXT :: string where
  "LB_SEG_PRELINK_TEXT = ''__PRELINK_TEXT''"

definition SEG_LINKEDIT :: string where
  "SEG_LINKEDIT = ''__LINKEDIT''"

definition MH_MAGIC_64 :: "32 word" where
  "MH_MAGIC_64 = 0xfeedfacf"

definition LC_SEGMENT_64 :: "32 word" where
  "LC_SEGMENT_64 = 0x19"

definition LC_SYMTAB :: "32 word" where
  "LC_SYMTAB = 0x2"

definition sizeof_mach_header_64 :: "64 word" where
  "sizeof_mach_header_64 = 32"

definition sizeof_nlist_64 :: "64 word" where
  "sizeof_nlist_64 = 16"

text \<open>
  The loop of \<^verbatim>\<open>FindSegment64\<close>, from the current \<^verbatim>\<open>LoadCommands\<close> pointer:
  \<^verbatim>\<open>while ((uint64_t)LoadCommands < (uint64_t)MachHeader + (uint64_t)MachHeader->sizeofcmds)\<close>.
  Nothing bounds the number of steps (a record with \<^verbatim>\<open>cmdsize\<close> zero repeats forever), so
  the result is an option: \<open>None\<close> when the loop does not end, \<open>Some 0\<close> for \<^verbatim>\<open>NULL\<close>,
  \<open>Some p\<close> for the segment record at \<open>p\<close>.
\<close>

partial_function (option) FindSegment64_loop ::
  "kernel \<Rightarrow> 64 word \<Rightarrow> string \<Rightarrow> 64 word \<Rightarrow> 64 word option" where
  "FindSegment64_loop k MachHeader SegmentName LoadCommands =
     (if LoadCommands < MachHeader + ucast (mh_sizeofcmds k MachHeader)
      then (if lc_cmd k LoadCommands = LC_SEGMENT_64
               \<and> seg_segname k LoadCommands = SegmentName
            then Some LoadCommands
            else FindSegment64_loop k MachHeader SegmentName
                   (LoadCommands + ucast (lc_cmdsize k LoadCommands)))
      else Some 0)"

declare FindSegment64_loop.simps [code]

definition FindSegment64 :: "kernel \<Rightarrow> 64 word \<Rightarrow> string \<Rightarrow> 64 word option" where
  "FindSegment64 k MachHeader SegmentName =
     FindSegment64_loop k MachHeader SegmentName (MachHeader + sizeof_mach_header_64)"

text \<open>The loop of \<^verbatim>\<open>SymbolLookup\<close> that looks for the \<^verbatim>\<open>LC_SYMTAB\<close> command.\<close>

partial_function (option) find_symtab_loop ::
  "kernel \<Rightarrow> 64 word \<Rightarrow> 64 word \<Rightarrow> 64 word option" where
  "find_symtab_loop k MachHeader LoadCommands =
     (if LoadCommands < MachHeader + ucast (mh_sizeofcmds k MachHeader)
      then (if lc_cmd k LoadCommands = LC_SYMTAB
            then Some LoadCommands
            else find_symtab_loop k MachHeader
                   (LoadCommands + ucast (lc_cmdsize k LoadCommands)))
      else Some 0)"

declare find_symtab_loop.simps [code]

text \<open>The \<^verbatim>\<open>static\<close> variables of \<^verbatim>\<open>SymbolLookup\<close>, all \<^verbatim>\<open>NULL\<close> at load time.\<close>

record klookup_statics =
  SymbolTable :: "64 word"
  StringTable :: "64 word"
  NameList :: "64 word"

definition initial_statics :: klookup_statics where
  "initial_statics = \<lparr> SymbolTable = 0, StringTable = 0, NameList = 0 \<rparr>"

text \<open>
  The block that parses the image, run when one of the three statics is \<^verbatim>\<open>NULL\<close>. A
  result \<open>Inl (s, es)\<close> is a \<^verbatim>\<open>return NULL\<close> from inside the block, with the statics and
  the messages at that point; \<open>Inr s\<close> leaves the block with the statics set.
\<close>

definition prelink_header :: "kernel \<Rightarrow> 64 word \<Rightarrow> 64 word option" where
  "prelink_header k MachHeader =
     (if version_major k \<ge> BIGSUR_XNU_MAJOR_VERSION
      then (case FindSegment64 k MachHeader LB_SEG_PRELINK_TEXT of
              None \<Rightarrow> None
            | Some LinkEdit \<Rightarrow>
                Some (if LinkEdit \<noteq> 0 then seg_vmaddr k LinkEdit else MachHeader))
      else Some MachHeader)"

definition parse_image ::
  "kernel \<Rightarrow> klookup_statics \<Rightarrow> (klookup_statics \<times> event list + klookup_statics) option" where
  "parse_image k s =
     (let Slide = printf_addr k - printf_unslid k;
          MachHeader0 = Slide + KERNEL_BASE
      in if mh_magic k MachHeader0 \<noteq> MH_MAGIC_64
         then Some (Inl (s, [Printf ''****** ********* ********* Latebloom KLOOKUP: BAD MAGIC HEADER'' [],
                             IOLog ''latebloom: Bad Mach-O Magic Header'' []]))
         else
           (case prelink_header k MachHeader0 of
              None \<Rightarrow> None
            | Some MachHeader \<Rightarrow>
               (case FindSegment64 k MachHeader SEG_LINKEDIT of
                  None \<Rightarrow> None
                | Some LinkEdit \<Rightarrow>
                   if LinkEdit = 0
                   then Some (Inl (s, [Printf ''****** ********* ********* Latebloom KLOOKUP: __LINKEDIT NOT FOUND'' [],
                                       IOLog ''latebloom: __LINKEDIT not found'' []]))
                   else
                     (case find_symtab_loop k MachHeader (MachHeader + sizeof_mach_header_64) of
                        None \<Rightarrow> None
                      | Some SymbolTable' \<Rightarrow>
                         if SymbolTable' = 0
                         then Some (Inl (s\<lparr>SymbolTable := 0\<rparr>,
                                 [Printf ''****** ********* ********* Latebloom KLOOKUP: LC_SYMTAB NOT FOUND'' [],
                                  IOLog ''latebloom: LC_SYMTAB not found'' []]))
                         else Some (Inr
                           \<lparr> SymbolTable = SymbolTable',
                             StringTable = (seg_vmaddr k LinkEdit - seg_fileoff k LinkEdit)
                                             + ucast (symtab_stroff k SymbolTable'),
                             NameList = (seg_vmaddr k LinkEdit - seg_fileoff k LinkEdit)
                                             + ucast (symtab_symoff k SymbolTable') \<rparr>)))))"

text \<open>
  The loop over the name list:
  \<^verbatim>\<open>for (i = 0, Address = NULL, tmpNameList = NameList; i < SymbolTable->nsyms; ++i, ++tmpNameList)\<close>.
  It returns \<^verbatim>\<open>Address\<close>.
\<close>

function name_loop :: "kernel \<Rightarrow> klookup_statics \<Rightarrow> string \<Rightarrow> nat \<Rightarrow> 64 word \<Rightarrow> 64 word" where
  "name_loop k s Symbol i tmpNameList =
     (if i < unat (symtab_nsyms k (SymbolTable s))
      then (if cstring k (StringTable s + ucast (nlist_n_strx k tmpNameList)) = Symbol
            then nlist_n_value k tmpNameList
            else name_loop k s Symbol (i + 1) (tmpNameList + sizeof_nlist_64))
      else 0)"
  by pat_completeness auto
termination
  by (relation "measure (\<lambda>(k, s, Symbol, i, p). unat (symtab_nsyms k (SymbolTable s)) - i)") auto

declare name_loop.simps [simp del]

text \<open>The two messages printed when the name list has no entry for the symbol.\<close>

definition symbol_not_found :: "string \<Rightarrow> event list" where
  "symbol_not_found Symbol =
     [Printf ''****** ********* ********* Latebloom KLOOKUP: SYMBOL '%s' NOT FOUND''
        [ArgStr Symbol],
      IOLog ''latebloom: Symbol '%s' not found'' [ArgStr Symbol]]"

text \<open>
  \<^verbatim>\<open>SymbolLookup\<close> returns the address (\<open>0\<close> for \<^verbatim>\<open>NULL\<close>), with the statics as it
  leaves them and the messages it prints; \<open>None\<close> when it does not return.
\<close>

definition SymbolLookup ::
  "kernel \<Rightarrow> klookup_statics \<Rightarrow> string \<Rightarrow> (64 word \<times> klookup_statics \<times> event list) option" where
  "SymbolLookup k s Symbol =
     (case (if SymbolTable s = 0 \<or> StringTable s = 0 \<or> NameList s = 0
            then parse_image k s else Some (Inr s)) of
        None \<Rightarrow> None
      | Some (Inl (s', es)) \<Rightarrow> Some (0, s', es)
      | Some (Inr s') \<Rightarrow>
          (let Address = name_loop k s' Symbol 0 (NameList s') in
           Some (Address, s', if Address = 0 then symbol_not_found Symbol else [])))"

section \<open>Notions used to state the properties of the symbol lookup\<close>








text \<open>The statics are populated: the test at the head of \<^verbatim>\<open>SymbolLookup\<close> fails.\<close>

definition populated :: "klookup_statics \<Rightarrow> bool" where
  "populated s = (SymbolTable s \<noteq> 0 \<and> StringTable s \<noteq> 0 \<and> NameList s \<noteq> 0)"

text \<open>The addresses of the \<^verbatim>\<open>nsyms\<close> entries of the name list, in order.\<close>

definition name_entries :: "kernel \<Rightarrow> klookup_statics \<Rightarrow> 64 word list" where
  "name_entries k s =
     map (\<lambda>i. NameList s + sizeof_nlist_64 * of_nat i) [0..<unat (symtab_nsyms k (SymbolTable s))]"

definition entry_name :: "kernel \<Rightarrow> klookup_statics \<Rightarrow> 64 word \<Rightarrow> string" where
  "entry_name k s p = cstring k (StringTable s + ucast (nlist_n_strx k p))"

text \<open>The value of the first entry whose string is the name, or \<open>0\<close> when there is none.\<close>

definition first_symbol :: "kernel \<Rightarrow> klookup_statics \<Rightarrow> string \<Rightarrow> 64 word" where
  "first_symbol k s name =
     (case find (\<lambda>p. entry_name k s p = name) (name_entries k s) of
        None \<Rightarrow> 0
      | Some p \<Rightarrow> nlist_n_value k p)"

text \<open>
  Two kernels that show the same symbol and string tables, whatever their headers and load
  commands are.
\<close>

definition same_symbols :: "kernel \<Rightarrow> kernel \<Rightarrow> bool" where
  "same_symbols k k' =
     (symtab_nsyms k = symtab_nsyms k' \<and> nlist_n_strx k = nlist_n_strx k' \<and>
      nlist_n_value k = nlist_n_value k' \<and> cstring k = cstring k')"

text \<open>Lookups of a list of names, one after the other, each from the statics the last left.\<close>

fun lookup_all ::
  "kernel \<Rightarrow> klookup_statics \<Rightarrow> string list \<Rightarrow> (64 word list \<times> klookup_statics) option" where
  "lookup_all k s [] = Some ([], s)"
| "lookup_all k s (n # ns) =
     (case SymbolLookup k s n of
        None \<Rightarrow> None
      | Some (a, s', es) \<Rightarrow>
          (case lookup_all k s' ns of
             None \<Rightarrow> None
           | Some (as, s'') \<Rightarrow> Some (a # as, s'')))"

text \<open>
  A small synthetic kernel, used to run the lookup on a concrete input: a slide of
  \<open>0x1000000\<close>, the header at \<open>0xffffff8001200000\<close> with four load commands (two
  segments, the symbol-table command and one more), and a symbol table of two entries.
\<close>

definition example_header :: "64 word" where
  "example_header = 0xffffff8001200000"


definition example_kernel :: kernel where
  "example_kernel =
     \<lparr> version_major = 20,
       printf_addr = 0xffffff8001300000,
       printf_unslid = 0xffffff8000300000,
       mh_magic = (\<lambda>p. if p = 0xffffff8001200000 then 0xfeedfacf else 0),
       mh_sizeofcmds = (\<lambda>p. if p = 0xffffff8001200000 then 192 else 0),
       lc_cmd = (\<lambda>p. if p = 0xffffff8001200020 then 0x19
                      else if p = 0xffffff8001200068 then 0x19
                      else if p = 0xffffff80012000b0 then 0x2
                      else if p = 0xffffff80012000c8 then 0x1b else 0),
       lc_cmdsize = (\<lambda>p. if p = 0xffffff8001200020 then 72
                          else if p = 0xffffff8001200068 then 72
                          else if p = 0xffffff80012000b0 then 24
                          else if p = 0xffffff80012000c8 then 24 else 0),
       seg_segname = (\<lambda>p. if p = 0xffffff8001200020 then ''__TEXT''
                           else if p = 0xffffff8001200068 then ''__LINKEDIT'' else []),
       seg_vmaddr = (\<lambda>p. if p = 0xffffff8001200068 then 0xffffff8002000000 else 0),
       seg_fileoff = (\<lambda>p. if p = 0xffffff8001200068 then 0x800000 else 0),
       symtab_symoff = (\<lambda>p. if p = 0xffffff80012000b0 then 0x800100 else 0),
       symtab_nsyms = (\<lambda>p. if p = 0xffffff80012000b0 then 2 else 0),
       symtab_stroff = (\<lambda>p. if p = 0xffffff80012000b0 then 0x801000 else 0),
       nlist_n_strx = (\<lambda>p. if p = 0xffffff8002000100 then 1
                            else if p = 0xffffff8002000110 then 9 else 0),
       nlist_n_value = (\<lambda>p. if p = 0xffffff8002000100 then 0xffffff8001300000
                             else if p = 0xffffff8002000110 then 0xffffff8001400000 else 0),
       cstring = (\<lambda>p. if p = 0xffffff8002001001 then ''_printf''
                       else if p = 0xffffff8002001009 then ''_PE_boot_args'' else []) \<rparr>"

definition example_statics :: klookup_statics where
  "example_statics =
     \<lparr> SymbolTable = 0xffffff80012000b0, StringTable = 0xffffff8002001000,
       NameList = 0xffffff8002000100 \<rparr>"





section \<open>The initialisation entry point\<close>

text \<open>
  What \<^verbatim>\<open>latebloom_start\<close> takes from outside \<^verbatim>\<open>cfuncs.c\<close>: the kernel image, the
  address of the boot-args string that the call of \<^verbatim>\<open>_PE_boot_args\<close> returns, the addresses
  of \<^verbatim>\<open>latebloom_hook\<close> and \<^verbatim>\<open>lb_hook_exit\<close>, the 32-bit displacement of the
  \<^verbatim>\<open>callq\<close> at \<^verbatim>\<open>latebloom_fake\<close> (as the linker resolved it), and the results of
  \<^verbatim>\<open>cdevsw_add\<close> and \<^verbatim>\<open>devfs_make_node\<close>.
\<close>

record lb_env =
  kern :: kernel
  PE_boot_args_result :: "64 word"
  latebloom_hook_address :: "64 word"
  lb_hook_exit_address :: "64 word"
  fake_call_rel32 :: "32 word"
  cdevsw_add_result :: int
  devfs_make_node_result :: "64 word"

text \<open>
  What it changes: the module variables, the statics of \<^verbatim>\<open>SymbolLookup\<close>, and the code
  bytes in memory (those of \<^verbatim>\<open>IOPCIBridge::probeBus\<close>, which it scans and patches, and
  those of its own hook).
\<close>

record world =
  lb :: lb_state
  statics :: klookup_statics
  code_mem :: memory

definition initial_world :: "memory \<Rightarrow> world" where
  "initial_world m = \<lparr> lb = initial_state, statics = initial_statics, code_mem = m \<rparr>"

text \<open>\<^verbatim>\<open>memcpy\<close>, and a 64-bit store (\<^verbatim>\<open>movq %rax,(%rbx)\<close>, little-endian).\<close>

definition store_bytes :: "memory \<Rightarrow> 64 word \<Rightarrow> 8 word list \<Rightarrow> memory" where
  "store_bytes m p bs = (\<lambda>a. if a - p < of_nat (length bs) then bs ! unat (a - p) else m a)"

definition le_bytes :: "64 word \<Rightarrow> 8 word list" where
  "le_bytes v = map (\<lambda>n. ucast (drop_bit (8 * n) v)) [0..<8]"

definition store64 :: "memory \<Rightarrow> 64 word \<Rightarrow> 64 word \<Rightarrow> memory" where
  "store64 m p v = store_bytes m p (le_bytes v)"

text \<open>\<^verbatim>\<open>makedev(x, y)\<close> is \<^verbatim>\<open>((x) << 24) | (y)\<close>, a 32-bit \<^verbatim>\<open>dev_t\<close>.\<close>

definition makedev :: "int \<Rightarrow> int \<Rightarrow> 32 word" where
  "makedev x y = push_bit 24 (word_of_int x) OR word_of_int y"

text \<open>A cast to \<^verbatim>\<open>int\<close>, for the arguments of the success message.\<close>

definition to_int32 :: "int \<Rightarrow> int" where
  "to_int32 x = sint (low32 x)"

text \<open>
  The block \<^verbatim>\<open>if (SleepValue == 0) { ... }\<close>: \<^verbatim>\<open>GET_SYMBOL("_PE_boot_args", BootArgs)\<close>,
  the call of the function found, and the parsing of the string it returns. \<open>Inl\<close> is a
  \<^verbatim>\<open>return\<close> from \<^verbatim>\<open>latebloom_start\<close>, \<open>Inr\<close> goes on; \<open>None\<close> when \<^verbatim>\<open>SymbolLookup\<close> does
  not return.
\<close>

definition start_parse :: "lb_env \<Rightarrow> world \<Rightarrow> (world + world) option" where
  "start_parse env w =
     (if SleepValue (lb w) = 0
      then (case SymbolLookup (kern env) (statics w) ''_PE_boot_args'' of
              None \<Rightarrow> None
            | Some (a, s', es) \<Rightarrow>
                (let st1 = (lb w)\<lparr>BootArgs := a, events := events (lb w) @ es\<rparr> in
                 if a = 0
                 then Some (Inl (w\<lparr>lb := emit (IOSleep (5 * MILLISECONDS_PER_SECOND))
                                          (emit (Printf ''failed to locate '%s', aborting''
                                                   [ArgStr ''_PE_boot_args'']) st1),
                                    statics := s'\<rparr>))
                 else
                   (let st2 = st1\<lparr>BootArgs := PE_boot_args_result env\<rparr>;
                        bootargs = cstring (kern env) (BootArgs st2);
                        st3 = emit (Printf ''boot-args = %s'' [ArgStr bootargs]) st2
                    in case parse_boot_args bootargs st3 of
                         Inl st' \<Rightarrow> Some (Inl (w\<lparr>lb := st', statics := s'\<rparr>))
                       | Inr st' \<Rightarrow> Some (Inr (w\<lparr>lb := st', statics := s'\<rparr>)))))
      else Some (Inr w))"

text \<open>
  The patch, once a pattern is found: \<^verbatim>\<open>jmp *(%rip)\<close> and the address of the hook at
  \<^verbatim>\<open>lb_jump_address\<close>, which then becomes the return point; the pattern's bytes copied
  to \<^verbatim>\<open>lb_hook_exit\<close>; the success message; the registration of the device.
\<close>

definition place_hook :: "lb_env \<Rightarrow> world \<Rightarrow> world" where
  "place_hook env w =
     (let st = lb w;
          rbx = lb_jump_address st;
          m1 = store64 (code_mem w) rbx 0x25ff;
          m2 = store64 m1 (rbx + 6) (latebloom_hook_address env);
          st1 = st\<lparr>lb_jump_address := rbx + 6 + 8\<rparr>;
          m3 = store_bytes m2 (lb_hook_exit_address env) (BytePatterns ! WhichPattern st1);
          st2 = emit (Printf ''Hook placed successfully.  Count = %d :: %d,%d,%d,%d,%d''
                        [ArgInt (sint (ucast (lb_PCI_counter st1) :: 32 word)),
                         ArgInt (to_int32 (SleepValue st1)), ArgInt (to_int32 (lb_RandRange st1)),
                         ArgInt (to_int32 (lb_DebugLevel st1)),
                         ArgInt (to_int32 (lb_AltSleepValue st1)),
                         ArgInt (to_int32 (lb_AltRandRange st1))]) st1;
          st3 = st2\<lparr>MajorDev := cdevsw_add_result env\<rparr>;
          st4 = (if MajorDev st3 \<ge> 0
                 then st3\<lparr>fBaseDev := makedev (MajorDev st3) 0,
                          fDeviceNode := devfs_make_node_result env\<rparr>
                 else st3)
      in w\<lparr>lb := st4, code_mem := m3\<rparr>)"

text \<open>
  The block \<^verbatim>\<open>if (lb_jump_address == 0) { ... }\<close>: the address of
  \<^verbatim>\<open>IOPCIBridge::probeBus\<close> (the sign-extended displacement added to the address of the
  hook), the scan, and the patch or the message that no pattern was found.
\<close>

definition start_hook :: "lb_env \<Rightarrow> world \<Rightarrow> world" where
  "start_hook env w =
     (if lb_jump_address (lb w) = 0
      then (let st1 = emit (Printf ''Start - First time through, trying to place hook...'' []) (lb w);
                st2 = st1\<lparr>ProbeAddress := scast (fake_call_rel32 env) + latebloom_hook_address env\<rparr>;
                st3 = find_hook (code_mem w) st2
            in if lb_jump_address st3 = 0
               then w\<lparr>lb := emit (IOSleep (4 * MILLISECONDS_PER_SECOND))
                              (emit (Printf ''Hook byte pattern not found, HOOK NOT PLACED. ...---...'' [])
                                 st3)\<rparr>
               else place_hook env (w\<lparr>lb := st3\<rparr>))
      else w)"

definition latebloom_start :: "lb_env \<Rightarrow> world \<Rightarrow> world option" where
  "latebloom_start env w =
     (if version_major (kern env) < BIGSUR_XNU_MAJOR_VERSION
      then Some (w\<lparr>lb := emit (IOSleep (4 * MILLISECONDS_PER_SECOND))
                           (emit (Printf ''OS major version == %d, aborting (HOOK NOT PLACED).''
                                    [ArgInt (version_major (kern env))]) (lb w))\<rparr>)
      else (let st = emit (Printf ''Starting.'' []) (lb w);
                w1 = w\<lparr>lb := st\<lparr>CurrentThread := 0\<rparr>\<rparr>
            in case start_parse env w1 of
                 None \<Rightarrow> None
               | Some (Inl w') \<Rightarrow> Some w'
               | Some (Inr w') \<Rightarrow> Some (start_hook env w')))"

text \<open>
  An environment around the synthetic kernel: the boot-args are \<^verbatim>\<open>-v lbloom=90,20,1\<close>,
  and the code of \<^verbatim>\<open>probeBus\<close> is \<^verbatim>\<open>nop\<close> bytes with the third signature at offset 5.
\<close>

definition example_env :: lb_env where
  "example_env =
     \<lparr> kern = example_kernel\<lparr>cstring :=
                 (\<lambda>p. if p = 0xffffff8003000000 then ''-v lbloom=90,20,1''
                      else cstring example_kernel p)\<rparr>,
       PE_boot_args_result = 0xffffff8003000000,
       latebloom_hook_address = 0xffffff7f90002005,
       lb_hook_exit_address = 0xffffff7f90002100,
       fake_call_rel32 = 0xfffff000,
       cdevsw_add_result = 30,
       devfs_make_node_result = 0 \<rparr>"

definition example_code :: memory where
  "example_code =
     (\<lambda>a. if a - 0xffffff7f9000100a < 14
          then BytePattern12b3 ! unat (a - 0xffffff7f9000100a) else 0x90)"

section \<open>Properties of the boot-argument parser\<close>

lemma ch_Cons_0: "ch (c # s) 0 = c"
  by (simp add: ch_def)

lemma ch_Cons_Suc: "ch (c # s) (Suc n) = ch s n"
  by (simp add: ch_def)

lemma strlen_Cons: "strlen (c # s) = (if c = CHR 0x00 then 0 else Suc (strlen s))"
  by (simp add: strlen_def)

lemma ch_strlen: "ch s (strlen s) = CHR 0x00"
  by (induction s) (simp_all add: strlen_Cons ch_Cons_0 ch_Cons_Suc, simp add: ch_def strlen_def)

lemma ch_before_strlen: "k < strlen s \<Longrightarrow> ch s k \<noteq> CHR 0x00"
proof (induction s arbitrary: k)
  case Nil
  then show ?case by (simp add: strlen_def)
next
  case (Cons c s)
  show ?case
  proof (cases k)
    case 0
    then show ?thesis
      using Cons.prems by (auto simp: ch_Cons_0 strlen_Cons split: if_splits)
  next
    case (Suc n)
    then have "n < strlen s"
      using Cons.prems by (auto simp: strlen_Cons split: if_splits)
    then show ?thesis
      using Cons.IH Suc by (simp add: ch_Cons_Suc)
  qed
qed

lemma latebloom_loop_nonneg:
  "0 \<le> v \<Longrightarrow> latebloom_loop p j v = digit_loop p j v"
proof (induction p j v rule: digit_loop.induct)
  case (1 p j lbval)
  show ?case
  proof (cases "j < MAX_ARG_DIGITS \<and> is_digit (ch p j)")
    case True
    then have d: "0 \<le> digit_val (ch p j)"
      by (simp add: is_digit_def digit_val_def)
    have "latebloom_loop p j lbval = latebloom_loop p (j + 1) (lbval * 10 + digit_val (ch p j))"
      using True "1.prems" by (subst latebloom_loop.simps) simp
    also have "\<dots> = digit_loop p (j + 1) (lbval * 10 + digit_val (ch p j))"
      using True "1.prems" d by (intro "1.IH") auto
    also have "\<dots> = digit_loop p j lbval"
      using True by (subst (2) digit_loop.simps) simp
    finally show ?thesis .
  next
    case False
    then show ?thesis
      by (subst latebloom_loop.simps, subst digit_loop.simps) auto
  qed
qed

lemma digit_loop_nonneg: "0 \<le> v \<Longrightarrow> 0 \<le> snd (digit_loop p j v)"
proof (induction p j v rule: digit_loop.induct)
  case (1 p j lbval)
  show ?case
  proof (cases "j < MAX_ARG_DIGITS \<and> is_digit (ch p j)")
    case True
    then have d: "0 \<le> digit_val (ch p j)"
      by (simp add: is_digit_def digit_val_def)
    have "0 \<le> snd (digit_loop p (j + 1) (lbval * 10 + digit_val (ch p j)))"
      using True "1.prems" d by (intro "1.IH") auto
    then show ?thesis
      using True by (subst digit_loop.simps) simp
  next
    case False
    then show ?thesis
      using "1.prems" by (subst digit_loop.simps) auto
  qed
qed

lemma latebloom_loop_start:
  "snd (latebloom_loop p 0 (-1)) = (if is_digit (ch p 0) then ExtractArgValue p else -1)"
proof (cases "is_digit (ch p 0)")
  case True
  then have d: "0 \<le> digit_val (ch p 0)"
    by (simp add: is_digit_def digit_val_def)
  have "latebloom_loop p 0 (-1) = latebloom_loop p 1 (digit_val (ch p 0))"
    using True by (subst latebloom_loop.simps) (simp add: MAX_ARG_DIGITS_def)
  also have "\<dots> = digit_loop p 1 (digit_val (ch p 0))"
    using d by (rule latebloom_loop_nonneg)
  also have "\<dots> = digit_loop p 0 0"
    using True by (subst (2) digit_loop.simps) (simp add: MAX_ARG_DIGITS_def)
  finally show ?thesis
    using True by (simp add: ExtractArgValue_def)
next
  case False
  then show ?thesis
    by (subst latebloom_loop.simps) simp
qed

lemma ExtractArgValue_no_digit: "\<not> is_digit (ch p 0) \<Longrightarrow> ExtractArgValue p = 0"
  unfolding ExtractArgValue_def by (subst digit_loop.simps) simp

lemma ExtractArgValue_nonneg: "0 \<le> ExtractArgValue p"
  unfolding ExtractArgValue_def by (rule digit_loop_nonneg) simp

lemma latebloom_abort_iff:
  "snd (latebloom_loop p 0 (-1)) \<le> 0 \<longleftrightarrow> ExtractArgValue p = 0"
  using ExtractArgValue_nonneg [of p] ExtractArgValue_no_digit [of p]
  by (auto simp: latebloom_loop_start)

lemma isl_arg_latebloom: "isl (arg_latebloom p st) \<longleftrightarrow> ExtractArgValue p = 0"
  using latebloom_abort_iff [of p]
  by (auto simp: arg_latebloom_def split: prod.splits)

lemma isl_arg_lbloom: "isl (arg_lbloom p st) \<longleftrightarrow> ExtractArgValue p = 0"
  by (auto simp: arg_lbloom_def ExtractArgValue_def Let_def split: prod.splits)

lemma match_prefix:
  assumes "BOOTARG_MATCH s i k" and "m \<le> length k"
  shows "take m (drop i s) = take m k"
proof -
  have "take m (take (length k) (drop i s)) = take m k"
    using assms(1) by (simp only: BOOTARG_MATCH_def)
  then show ?thesis
    using assms(2) by (simp add: min_absorb1)
qed

lemma lbloom_not_latebloom:
  assumes "BOOTARG_MATCH s i ''lbloom=''"
  shows "\<not> BOOTARG_MATCH s i ''latebloom=''"
proof
  assume other: "BOOTARG_MATCH s i ''latebloom=''"
  have "take 2 (drop i s) = ''lb''"
    using match_prefix [OF assms, of 2] by simp
  moreover have "take 2 (drop i s) = ''la''"
    using match_prefix [OF other, of 2] by simp
  ultimately show False by simp
qed

lemma lbloom_not_lb_key:
  assumes "BOOTARG_MATCH s i ''lbloom=''" and "take 3 k = ''lb_''" and "3 \<le> length k"
  shows "\<not> BOOTARG_MATCH s i k"
proof
  assume other: "BOOTARG_MATCH s i k"
  have "take 3 (drop i s) = ''lbl''"
    using match_prefix [OF assms(1), of 3] by simp
  moreover have "take 3 (drop i s) = ''lb_''"
    using match_prefix [OF other assms(3)] assms(2) by simp
  ultimately show False by simp
qed

lemma lbloom_not_lb_keys:
  assumes "BOOTARG_MATCH s i ''lbloom=''"
  shows "\<not> BOOTARG_MATCH s i ''lb_debug=''" "\<not> BOOTARG_MATCH s i ''lb_range=''"
    "\<not> BOOTARG_MATCH s i ''lb_delay2=''" "\<not> BOOTARG_MATCH s i ''lb_range2=''"
  by (rule lbloom_not_lb_key [OF assms]; simp)+

lemma isl_arg_step: "isl (arg_step s i st) \<longleftrightarrow> aborts_at s i"
  by (auto simp: arg_step_def aborts_at_def isl_arg_latebloom isl_arg_lbloom Let_def
      lbloom_not_latebloom lbloom_not_lb_keys)

lemma isl_scan_args:
  "i \<le> strlen s \<Longrightarrow>
   isl (scan_args s i st) \<longleftrightarrow> (\<exists>k. i \<le> k \<and> k < strlen s \<and> aborts_at s k)"
proof (induction s i st rule: scan_args.induct)
  case (1 s i st)
  show ?case
  proof (cases "ch s i = CHR 0x00")
    case True
    then have "i = strlen s"
      using "1.prems" ch_before_strlen [of i s] by (cases "i < strlen s") auto
    then show ?thesis
      using True by (subst scan_args.simps) auto
  next
    case False
    then have lt: "i < strlen s"
      using "1.prems" ch_strlen [of s] by (cases "i = strlen s") auto
    show ?thesis
    proof (cases "arg_step s i st")
      case (Inl st')
      then have "aborts_at s i"
        using isl_arg_step [of s i st] by simp
      then show ?thesis
        using False Inl lt by (subst scan_args.simps) auto
    next
      case (Inr st')
      then have na: "\<not> aborts_at s i"
        using isl_arg_step [of s i st] by simp
      have "isl (scan_args s (i + 1) st') \<longleftrightarrow> (\<exists>k. i + 1 \<le> k \<and> k < strlen s \<and> aborts_at s k)"
        using False Inr lt by (intro "1.IH") auto
      moreover have "(\<exists>k. i + 1 \<le> k \<and> k < strlen s \<and> aborts_at s k)
                     \<longleftrightarrow> (\<exists>k. i \<le> k \<and> k < strlen s \<and> aborts_at s k)"
        using na by (metis Suc_eq_plus1 Suc_leD Suc_leI le_neq_implies_less)
      ultimately show ?thesis
        using False Inr by (subst scan_args.simps) simp
    qed
  qed
qed

lemma ch_append_right: "ch (g @ r) (length g + k) = ch r k"
  by (simp add: ch_def nth_append)

lemma ch_append_right0: "ch (g @ r) (length g) = ch r 0"
  using ch_append_right [of g r 0] by simp

lemma digit_loop_run:
  "list_all is_digit f2 \<Longrightarrow> length f1 + length f2 \<le> MAX_ARG_DIGITS \<Longrightarrow> \<not> is_digit (ch r 0) \<Longrightarrow>
   digit_loop (f1 @ f2 @ r) (length f1) v =
     (length f1 + length f2, foldl (\<lambda>v c. v * 10 + digit_val c) v f2)"
proof (induction f2 arbitrary: f1 v)
  case Nil
  then show ?case
    by (subst digit_loop.simps) (simp add: ch_append_right0)
next
  case (Cons c f2)
  have c: "ch (f1 @ (c # f2) @ r) (length f1) = c"
    using ch_append_right0 [of f1 "(c # f2) @ r"] by (simp add: ch_Cons_0)
  have "digit_loop (f1 @ (c # f2) @ r) (length f1) v =
        digit_loop ((f1 @ [c]) @ f2 @ r) (length (f1 @ [c])) (v * 10 + digit_val c)"
    using Cons.prems c by (subst digit_loop.simps) simp
  also have "\<dots> = (length (f1 @ [c]) + length f2,
                     foldl (\<lambda>v c. v * 10 + digit_val c) (v * 10 + digit_val c) f2)"
    using Cons.prems by (intro Cons.IH) simp_all
  finally show ?case by simp
qed

lemma digit_loop_field:
  assumes "is_field f" and "\<not> is_digit (ch r 0)"
  shows "digit_loop (f @ r) 0 0 = (length f, field_val f)"
  using digit_loop_run [of f "[]" r 0] assms by (simp add: is_field_def field_val_def)

lemma not_digit_comma: "\<not> is_digit CHR '',''"
  by (simp add: is_digit_def)

lemma EXTRACT_field:
  assumes "is_field f" and "\<not> is_digit (ch r 0)"
  shows "EXTRACT_LBLOOM_VALUE (g @ CHR '','' # f @ r) (length g) = (f @ r, length f, field_val f)"
  using digit_loop_field [OF assms] by (simp add: EXTRACT_LBLOOM_VALUE_def)

lemma ch_comma: "ch (g @ CHR '','' # r) (length g) = CHR '',''"
  using ch_append_right0 [of g "CHR '','' # r"] by (simp add: ch_Cons_0)

lemma ch_comma_digit: "\<not> is_digit (ch (CHR '','' # r) 0)"
  by (simp add: ch_Cons_0 not_digit_comma)

lemma lbloom_range_present:
  assumes "is_field f" and "\<not> is_digit (ch r 0)"
  shows "lbloom_range (g @ CHR '','' # f @ r, length g, st) =
           (f @ r, length f, st\<lparr>lb_RandRange := field_val f\<rparr>)"
  by (simp add: lbloom_range_def ch_comma EXTRACT_field [OF assms])

lemma lbloom_debug_present:
  assumes "is_field f" and "\<not> is_digit (ch r 0)"
  shows "lbloom_debug (g @ CHR '','' # f @ r, length g, st) =
           (f @ r, length f, st\<lparr>lb_DebugLevel := field_val f\<rparr>)"
  by (simp add: lbloom_debug_def ch_comma EXTRACT_field [OF assms])

lemma lbloom_delay2_present:
  assumes "is_field f" and "\<not> is_digit (ch r 0)"
  shows "lbloom_delay2 (g @ CHR '','' # f @ r, length g, st) =
           (f @ r, length f,
            st\<lparr>lb_AltSleepValue := (if f = [] then SleepValue st else field_val f)\<rparr>)"
  by (simp add: lbloom_delay2_def ch_comma EXTRACT_field [OF assms])

lemma lbloom_range2_present:
  assumes "is_field f" and "\<not> is_digit (ch r 0)"
  shows "lbloom_range2 (g @ CHR '','' # f @ r, length g, st) =
           (f @ r, length f, st\<lparr>lb_AltRandRange := field_val f\<rparr>)"
  by (simp add: lbloom_range2_def ch_comma EXTRACT_field [OF assms])

lemma lbloom_absent:
  assumes "ch e 0 \<noteq> CHR '',''"
  shows "lbloom_range (g @ e, length g, st) = (g @ e, length g, st)"
    and "lbloom_debug (g @ e, length g, st) = (g @ e, length g, st)"
    and "lbloom_delay2 (g @ e, length g, st) = (g @ e, length g, st)"
    and "lbloom_range2 (g @ e, length g, st) = (g @ e, length g, st)"
  using assms
  by (simp_all add: lbloom_range_def lbloom_debug_def lbloom_delay2_def lbloom_range2_def
      ch_append_right0)

lemma arg_lbloom_delay:
  assumes "is_field f" and "\<not> is_digit (ch r 0)" and "field_val f \<noteq> 0"
  shows "arg_lbloom (f @ r) st =
     Inr (snd (snd (lbloom_range2 (lbloom_delay2 (lbloom_debug (lbloom_range
        (f @ r, length f,
         st\<lparr>lb_RandRange := 0, lb_DebugLevel := 0, SleepValue := field_val f\<rparr>)))))))"
  using assms(3) by (simp add: arg_lbloom_def digit_loop_field [OF assms(1,2)])

lemma arg_lbloom_zero:
  assumes "is_field f" and "\<not> is_digit (ch r 0)" and "field_val f = 0"
  shows "isl (arg_lbloom (f @ r) st)"
  using assms(3) by (simp add: arg_lbloom_def digit_loop_field [OF assms(1,2)])

lemma arg_lbloom_one:
  assumes "is_field f1" and "field_end e"
  shows "field_val f1 \<noteq> 0 \<longrightarrow>
         arg_lbloom (f1 @ e) st =
           Inr (st\<lparr>SleepValue := field_val f1, lb_RandRange := 0, lb_DebugLevel := 0\<rparr>)"
proof
  assume nz: "field_val f1 \<noteq> 0"
  have nd: "\<not> is_digit (ch e 0)" and nc: "ch e 0 \<noteq> CHR '',''"
    using assms(2) by (simp_all add: field_end_def)
  show "arg_lbloom (f1 @ e) st =
           Inr (st\<lparr>SleepValue := field_val f1, lb_RandRange := 0, lb_DebugLevel := 0\<rparr>)"
    by (simp add: arg_lbloom_delay [OF assms(1) nd nz] lbloom_absent [OF nc])
qed

lemma arg_lbloom_two:
  assumes "is_field f1" "is_field f2" and "field_end e"
  shows "field_val f1 \<noteq> 0 \<longrightarrow>
         arg_lbloom (f1 @ '','' @ f2 @ e) st =
           Inr (st\<lparr>SleepValue := field_val f1, lb_RandRange := field_val f2,
                    lb_DebugLevel := 0\<rparr>)"
proof
  assume nz: "field_val f1 \<noteq> 0"
  have nd: "\<not> is_digit (ch e 0)" and nc: "ch e 0 \<noteq> CHR '',''"
    using assms(3) by (simp_all add: field_end_def)
  show "arg_lbloom (f1 @ '','' @ f2 @ e) st =
           Inr (st\<lparr>SleepValue := field_val f1, lb_RandRange := field_val f2,
                    lb_DebugLevel := 0\<rparr>)"
    by (simp add: arg_lbloom_delay [OF assms(1) ch_comma_digit nz]
        lbloom_range_present [OF assms(2) nd] lbloom_absent [OF nc])
qed

lemma arg_lbloom_three:
  assumes "is_field f1" "is_field f2" "is_field f3" and "field_end e"
  shows "field_val f1 \<noteq> 0 \<longrightarrow>
         arg_lbloom (f1 @ '','' @ f2 @ '','' @ f3 @ e) st =
           Inr (st\<lparr>SleepValue := field_val f1, lb_RandRange := field_val f2,
                    lb_DebugLevel := field_val f3\<rparr>)"
proof
  assume nz: "field_val f1 \<noteq> 0"
  have nd: "\<not> is_digit (ch e 0)" and nc: "ch e 0 \<noteq> CHR '',''"
    using assms(4) by (simp_all add: field_end_def)
  show "arg_lbloom (f1 @ '','' @ f2 @ '','' @ f3 @ e) st =
           Inr (st\<lparr>SleepValue := field_val f1, lb_RandRange := field_val f2,
                    lb_DebugLevel := field_val f3\<rparr>)"
    by (simp add: arg_lbloom_delay [OF assms(1) ch_comma_digit nz]
        lbloom_range_present [OF assms(2) ch_comma_digit]
        lbloom_debug_present [OF assms(3) nd] lbloom_absent [OF nc])
qed

lemma arg_lbloom_four:
  assumes "is_field f1" "is_field f2" "is_field f3" "is_field f4" and "field_end e"
  shows "field_val f1 \<noteq> 0 \<longrightarrow>
         arg_lbloom (f1 @ '','' @ f2 @ '','' @ f3 @ '','' @ f4 @ e) st =
           Inr (st\<lparr>SleepValue := field_val f1, lb_RandRange := field_val f2,
                    lb_DebugLevel := field_val f3,
                    lb_AltSleepValue := (if f4 = [] then field_val f1 else field_val f4)\<rparr>)"
proof
  assume nz: "field_val f1 \<noteq> 0"
  have nd: "\<not> is_digit (ch e 0)" and nc: "ch e 0 \<noteq> CHR '',''"
    using assms(5) by (simp_all add: field_end_def)
  show "arg_lbloom (f1 @ '','' @ f2 @ '','' @ f3 @ '','' @ f4 @ e) st =
           Inr (st\<lparr>SleepValue := field_val f1, lb_RandRange := field_val f2,
                    lb_DebugLevel := field_val f3,
                    lb_AltSleepValue := (if f4 = [] then field_val f1 else field_val f4)\<rparr>)"
    by (simp add: arg_lbloom_delay [OF assms(1) ch_comma_digit nz]
        lbloom_range_present [OF assms(2) ch_comma_digit]
        lbloom_debug_present [OF assms(3) ch_comma_digit]
        lbloom_delay2_present [OF assms(4) nd] lbloom_absent [OF nc])
qed

lemma arg_lbloom_five:
  assumes "is_field f1" "is_field f2" "is_field f3" "is_field f4" "is_field f5"
    and "field_end e"
  shows "field_val f1 \<noteq> 0 \<longrightarrow>
         arg_lbloom (f1 @ '','' @ f2 @ '','' @ f3 @ '','' @ f4 @ '','' @ f5 @ e) st =
           Inr (st\<lparr>SleepValue := field_val f1, lb_RandRange := field_val f2,
                    lb_DebugLevel := field_val f3,
                    lb_AltSleepValue := (if f4 = [] then field_val f1 else field_val f4),
                    lb_AltRandRange := field_val f5\<rparr>)"
proof
  assume nz: "field_val f1 \<noteq> 0"
  have nd: "\<not> is_digit (ch e 0)"
    using assms(6) by (simp add: field_end_def)
  show "arg_lbloom (f1 @ '','' @ f2 @ '','' @ f3 @ '','' @ f4 @ '','' @ f5 @ e) st =
           Inr (st\<lparr>SleepValue := field_val f1, lb_RandRange := field_val f2,
                    lb_DebugLevel := field_val f3,
                    lb_AltSleepValue := (if f4 = [] then field_val f1 else field_val f4),
                    lb_AltRandRange := field_val f5\<rparr>)"
    by (simp add: arg_lbloom_delay [OF assms(1) ch_comma_digit nz]
        lbloom_range_present [OF assms(2) ch_comma_digit]
        lbloom_debug_present [OF assms(3) ch_comma_digit]
        lbloom_delay2_present [OF assms(4) ch_comma_digit]
        lbloom_range2_present [OF assms(5) nd])
qed

lemma digit_val_bounds: "is_digit c \<Longrightarrow> 0 \<le> digit_val c \<and> digit_val c \<le> 9"
  by (simp add: is_digit_def digit_val_def)

lemma digit_loop_upper:
  "v < 10 ^ j \<Longrightarrow> j \<le> MAX_ARG_DIGITS \<Longrightarrow> snd (digit_loop p j v) < 10000"
proof (induction p j v rule: digit_loop.induct)
  case (1 p j lbval)
  show ?case
  proof (cases "j < MAX_ARG_DIGITS \<and> is_digit (ch p j)")
    case True
    then have d: "digit_val (ch p j) \<le> 9"
      using digit_val_bounds by blast
    have "lbval * 10 + digit_val (ch p j) < 10 ^ (j + 1)"
      using "1.prems"(1) d by simp
    then have "snd (digit_loop p (j + 1) (lbval * 10 + digit_val (ch p j))) < 10000"
      using True by (intro "1.IH") auto
    then show ?thesis
      using True by (subst digit_loop.simps) simp
  next
    case False
    have "(10::int) ^ j \<le> 10 ^ MAX_ARG_DIGITS"
      using "1.prems"(2) by (intro power_increasing) auto
    then have "lbval < 10000"
      using "1.prems"(1) by (simp add: MAX_ARG_DIGITS_def)
    then show ?thesis
      using False by (subst digit_loop.simps) auto
  qed
qed

lemma digit_loop_0_bounds:
  "0 \<le> snd (digit_loop p 0 0) \<and> snd (digit_loop p 0 0) < 10000"
  using digit_loop_nonneg [of 0 p 0] digit_loop_upper [of 0 0 p] by simp

lemma ExtractArgValue_bounds: "0 \<le> ExtractArgValue p \<and> ExtractArgValue p < 10000"
  using digit_loop_0_bounds [of p] by (simp add: ExtractArgValue_def)

lemma EXTRACT_bounds:
  "EXTRACT_LBLOOM_VALUE ptr j = (ptr', j', v) \<Longrightarrow> 0 \<le> v \<and> v < 10000"
  using digit_loop_0_bounds [of "drop (j + 1) ptr"]
  by (auto simp: EXTRACT_LBLOOM_VALUE_def Let_def split: prod.splits)

lemma lbloom_range_inv: "cfg_inv (snd (snd w)) \<Longrightarrow> cfg_inv (snd (snd (lbloom_range w)))"
  by (auto simp: lbloom_range_def cfg_inv_def split: prod.splits dest: EXTRACT_bounds)

lemma lbloom_debug_inv: "cfg_inv (snd (snd w)) \<Longrightarrow> cfg_inv (snd (snd (lbloom_debug w)))"
  by (auto simp: lbloom_debug_def cfg_inv_def split: prod.splits dest: EXTRACT_bounds)

lemma lbloom_delay2_inv: "cfg_inv (snd (snd w)) \<Longrightarrow> cfg_inv (snd (snd (lbloom_delay2 w)))"
  by (auto simp: lbloom_delay2_def cfg_inv_def split: prod.splits dest: EXTRACT_bounds)

lemma lbloom_range2_inv: "cfg_inv (snd (snd w)) \<Longrightarrow> cfg_inv (snd (snd (lbloom_range2 w)))"
  by (auto simp: lbloom_range2_def cfg_inv_def split: prod.splits dest: EXTRACT_bounds)

lemma arg_lbloom_inv:
  assumes "cfg_inv st" and "arg_lbloom p st = Inr st'"
  shows "cfg_inv st'"
proof -
  obtain j v where dl: "digit_loop p 0 0 = (j, v)"
    by (cases "digit_loop p 0 0")
  have vb: "0 \<le> v \<and> v < 10000"
    using digit_loop_0_bounds [of p] dl by simp
  define st1 where "st1 = st\<lparr>lb_RandRange := 0, lb_DebugLevel := 0, SleepValue := v\<rparr>"
  have "cfg_inv (snd (snd (p, j, st1)))"
    using assms(1) vb by (simp add: cfg_inv_def st1_def)
  then have "cfg_inv (snd (snd (lbloom_range2 (lbloom_delay2 (lbloom_debug (lbloom_range (p, j, st1)))))))"
    by (intro lbloom_range2_inv lbloom_delay2_inv lbloom_debug_inv lbloom_range_inv)
  moreover have "st' = snd (snd (lbloom_range2 (lbloom_delay2 (lbloom_debug (lbloom_range (p, j, st1))))))"
    using assms(2) dl by (simp add: arg_lbloom_def st1_def Let_def split: if_splits)
  ultimately show ?thesis by simp
qed

lemma arg_latebloom_inv:
  assumes "cfg_inv st" and "arg_latebloom p st = Inr st'"
  shows "cfg_inv st'"
proof -
  have "snd (latebloom_loop p 0 (-1)) = (if is_digit (ch p 0) then ExtractArgValue p else -1)"
    by (rule latebloom_loop_start)
  then show ?thesis
    using assms ExtractArgValue_bounds [of p]
    by (auto simp: arg_latebloom_def cfg_inv_def split: prod.splits if_splits)
qed

lemma emit_fields:
  "SleepValue (emit e st) = SleepValue st" "lb_RandRange (emit e st) = lb_RandRange st"
  "lb_DebugLevel (emit e st) = lb_DebugLevel st"
  "lb_AltSleepValue (emit e st) = lb_AltSleepValue st"
  "lb_AltRandRange (emit e st) = lb_AltRandRange st"
  "events (emit e st) = events st @ [e]"
  by (simp_all add: emit_def)

lemma cfg_inv_emit: "cfg_inv (emit e st) = cfg_inv st"
  by (simp add: cfg_inv_def emit_fields)

lemma cfg_inv_update:
  assumes "cfg_inv st" and "0 \<le> v \<and> v < 10000"
  shows "cfg_inv (st\<lparr>lb_DebugLevel := v\<rparr>)" "cfg_inv (st\<lparr>lb_RandRange := v\<rparr>)"
    "cfg_inv (st\<lparr>lb_AltSleepValue := v\<rparr>)" "cfg_inv (st\<lparr>lb_AltRandRange := v\<rparr>)"
  using assms by (simp_all add: cfg_inv_def)

lemma inv_result_simps: "inv_result (Inl a)" "inv_result (Inr b) = cfg_inv b"
  by (simp_all add: inv_result_def)

lemma arg_latebloom_inv_result: "cfg_inv st \<Longrightarrow> inv_result (arg_latebloom p st)"
  using arg_latebloom_inv [of st p] by (cases "arg_latebloom p st") (simp_all add: inv_result_simps)

lemma arg_lbloom_inv_result: "cfg_inv st \<Longrightarrow> inv_result (arg_lbloom p st)"
  using arg_lbloom_inv [of st p] by (cases "arg_lbloom p st") (simp_all add: inv_result_simps)

lemma arg_step_inv_result:
  assumes "cfg_inv st"
  shows "inv_result (arg_step s i st)"
  unfolding arg_step_def Let_def
  by (simp add: inv_result_simps cfg_inv_emit cfg_inv_update [OF assms ExtractArgValue_bounds]
      arg_latebloom_inv_result [OF assms] arg_lbloom_inv_result [OF assms] assms)

lemma arg_step_inv:
  assumes "cfg_inv st" and "arg_step s i st = Inr st'"
  shows "cfg_inv st'"
  using arg_step_inv_result [OF assms(1), of s i] assms(2) by (simp add: inv_result_simps)

lemma scan_args_inv:
  "cfg_inv st \<Longrightarrow> scan_args s i st = Inr st' \<Longrightarrow> cfg_inv st'"
proof (induction s i st rule: scan_args.induct)
  case (1 s i st)
  show ?case
  proof (cases "ch s i = CHR 0x00")
    case True
    then have "st' = st"
      using "1.prems"(2) by (subst (asm) scan_args.simps) simp
    then show ?thesis using "1.prems"(1) by simp
  next
    case False
    then obtain st1 where step: "arg_step s i st = Inr st1"
      and rest: "scan_args s (i + 1) st1 = Inr st'"
      using "1.prems"(2) by (subst (asm) scan_args.simps) (auto split: sum.splits)
    have "cfg_inv st1"
      by (rule arg_step_inv [OF "1.prems"(1) step])
    then show ?thesis
      using False step rest by (intro "1.IH"[of st1]) auto
  qed
qed

lemma initial_inv: "cfg_inv initial_state"
  by (simp add: cfg_inv_def initial_state_def)

lemma ConfigSet_default_delay1:
  "ConfigSet (default_delay1 st) =
     (if SleepValue st = 0 then DEFAULT_SLEEP else SleepValue st,
      lb_RandRange st, lb_DebugLevel st, lb_AltSleepValue st, lb_AltRandRange st)"
  by (simp add: default_delay1_def ConfigSet_def Let_def emit_fields)

lemma ConfigSet_default_delay2:
  "ConfigSet (default_delay2 st) =
     (SleepValue st, lb_RandRange st, lb_DebugLevel st,
      if lb_AltSleepValue st = -1 then SleepValue st else lb_AltSleepValue st,
      lb_AltRandRange st)"
  by (simp add: default_delay2_def ConfigSet_def Let_def emit_fields)

lemma ConfigSet_clamp_range1:
  assumes "0 \<le> lb_RandRange st" and "lb_RandRange st < 10000" and "0 \<le> SleepValue st"
  shows "ConfigSet (clamp_range1 st) =
     (SleepValue st, min (lb_RandRange st) (SleepValue st), lb_DebugLevel st,
      lb_AltSleepValue st, lb_AltRandRange st)"
proof -
  have "to_ulong (lb_RandRange st) = lb_RandRange st"
    using assms(1,2) by (simp add: to_ulong_def)
  then show ?thesis
    using assms(3) by (simp add: clamp_range1_def ConfigSet_def Let_def emit_fields min_def)
qed

lemma ConfigSet_clamp_range2:
  assumes "0 \<le> lb_AltSleepValue st"
  shows "ConfigSet (clamp_range2 st) =
     (SleepValue st, lb_RandRange st, lb_DebugLevel st, lb_AltSleepValue st,
      min (if lb_AltRandRange st = -1 then lb_RandRange st else lb_AltRandRange st)
          (lb_AltSleepValue st))"
  using assms by (simp add: clamp_range2_def ConfigSet_def Let_def emit_fields min_def)

lemma ConfigSet_fields:
  "ConfigSet st = (s, r, d, a, ar) \<longleftrightarrow>
     SleepValue st = s \<and> lb_RandRange st = r \<and> lb_DebugLevel st = d \<and>
     lb_AltSleepValue st = a \<and> lb_AltRandRange st = ar"
  by (auto simp: ConfigSet_def)

lemma ConfigSet_apply_defaults:
  assumes "cfg_inv c0"
  shows "ConfigSet (apply_defaults c0) =
     (let s = (if SleepValue c0 = 0 then DEFAULT_SLEEP else SleepValue c0);
          a = (if lb_AltSleepValue c0 = -1 then s else lb_AltSleepValue c0);
          r = min (lb_RandRange c0) s
      in (s, r, lb_DebugLevel c0, a,
          min (if lb_AltRandRange c0 = -1 then r else lb_AltRandRange c0) a))"
proof -
  define c1 where "c1 = default_delay1 c0"
  define c2 where "c2 = default_delay2 c1"
  define c3 where "c3 = clamp_range1 c2"
  have f1: "ConfigSet c1 = (if SleepValue c0 = 0 then DEFAULT_SLEEP else SleepValue c0,
      lb_RandRange c0, lb_DebugLevel c0, lb_AltSleepValue c0, lb_AltRandRange c0)"
    unfolding c1_def by (rule ConfigSet_default_delay1)
  have f2: "ConfigSet c2 = (SleepValue c1, lb_RandRange c1, lb_DebugLevel c1,
      if lb_AltSleepValue c1 = -1 then SleepValue c1 else lb_AltSleepValue c1,
      lb_AltRandRange c1)"
    unfolding c2_def by (rule ConfigSet_default_delay2)
  have b2: "0 \<le> lb_RandRange c2" "lb_RandRange c2 < 10000" "0 \<le> SleepValue c2"
    "0 \<le> lb_AltSleepValue c2"
    using assms f1 f2 by (auto simp: ConfigSet_fields cfg_inv_def DEFAULT_SLEEP_def split: if_splits)
  have f3: "ConfigSet c3 = (SleepValue c2, min (lb_RandRange c2) (SleepValue c2),
      lb_DebugLevel c2, lb_AltSleepValue c2, lb_AltRandRange c2)"
    unfolding c3_def by (rule ConfigSet_clamp_range1 [OF b2(1,2,3)])
  have b3: "0 \<le> lb_AltSleepValue c3"
    using f3 b2(4) by (simp add: ConfigSet_fields)
  have f4: "ConfigSet (clamp_range2 c3) = (SleepValue c3, lb_RandRange c3, lb_DebugLevel c3,
      lb_AltSleepValue c3,
      min (if lb_AltRandRange c3 = -1 then lb_RandRange c3 else lb_AltRandRange c3)
          (lb_AltSleepValue c3))"
    by (rule ConfigSet_clamp_range2 [OF b3])
  have "apply_defaults c0 = clamp_range2 c3"
    by (simp add: apply_defaults_def c1_def c2_def c3_def)
  then show ?thesis
    using f1 f2 f3 f4 by (simp add: ConfigSet_fields Let_def)
qed

lemma events_default_delay1: "set (events st) \<subseteq> set (events (default_delay1 st))"
  by (auto simp: default_delay1_def Let_def emit_def)

lemma events_default_delay2: "set (events st) \<subseteq> set (events (default_delay2 st))"
  by (auto simp: default_delay2_def Let_def emit_def)

lemma events_clamp_range1: "set (events st) \<subseteq> set (events (clamp_range1 st))"
  by (auto simp: clamp_range1_def Let_def emit_def)

lemma events_clamp_range2: "set (events st) \<subseteq> set (events (clamp_range2 st))"
  by (auto simp: clamp_range2_def Let_def emit_def)

lemma clamp_range1_diagnostic:
  assumes "0 \<le> lb_RandRange st" and "lb_RandRange st < 10000"
    and "SleepValue st < lb_RandRange st" and "0 \<le> SleepValue st"
  shows "Printf ''lb_range larger than lb_sleep, truncating to %ld'' [ArgInt (SleepValue st)]
           \<in> set (events (clamp_range1 st))"
proof -
  have "to_ulong (lb_RandRange st) = lb_RandRange st"
    using assms(1,2) by (simp add: to_ulong_def)
  then show ?thesis
    using assms by (auto simp: clamp_range1_def Let_def emit_def)
qed

lemma clamp_range2_diagnostic:
  assumes "lb_AltSleepValue st < (if lb_AltRandRange st = -1 then lb_RandRange st else lb_AltRandRange st)"
    and "0 \<le> lb_AltSleepValue st"
  shows "Printf ''lb_range2 larger than lb_delay2, truncating to %ld'' [ArgInt (lb_AltSleepValue st)]
           \<in> set (events (clamp_range2 st))"
  using assms by (auto simp: clamp_range2_def Let_def emit_def split: if_splits)

lemma apply_defaults_diagnostics:
  assumes "cfg_inv c0"
  defines "c \<equiv> apply_defaults c0"
  shows "SleepValue c < lb_RandRange c0 \<Longrightarrow>
           Printf ''lb_range larger than lb_sleep, truncating to %ld'' [ArgInt (SleepValue c)]
             \<in> set (events c)"
    and "lb_AltSleepValue c < (if lb_AltRandRange c0 = -1 then lb_RandRange c else lb_AltRandRange c0) \<Longrightarrow>
           Printf ''lb_range2 larger than lb_delay2, truncating to %ld'' [ArgInt (lb_AltSleepValue c)]
             \<in> set (events c)"
proof -
  define c1 where "c1 = default_delay1 c0"
  define c2 where "c2 = default_delay2 c1"
  define c3 where "c3 = clamp_range1 c2"
  have c: "c = clamp_range2 c3"
    by (simp add: c_def apply_defaults_def c1_def c2_def c3_def)
  have f1: "ConfigSet c1 = (if SleepValue c0 = 0 then DEFAULT_SLEEP else SleepValue c0,
      lb_RandRange c0, lb_DebugLevel c0, lb_AltSleepValue c0, lb_AltRandRange c0)"
    unfolding c1_def by (rule ConfigSet_default_delay1)
  have f2: "ConfigSet c2 = (SleepValue c1, lb_RandRange c1, lb_DebugLevel c1,
      if lb_AltSleepValue c1 = -1 then SleepValue c1 else lb_AltSleepValue c1,
      lb_AltRandRange c1)"
    unfolding c2_def by (rule ConfigSet_default_delay2)
  have b2: "0 \<le> lb_RandRange c2" "lb_RandRange c2 < 10000" "0 \<le> SleepValue c2"
    "0 \<le> lb_AltSleepValue c2"
    using assms(1) f1 f2
    by (auto simp: ConfigSet_fields cfg_inv_def DEFAULT_SLEEP_def split: if_splits)
  have f3: "ConfigSet c3 = (SleepValue c2, min (lb_RandRange c2) (SleepValue c2),
      lb_DebugLevel c2, lb_AltSleepValue c2, lb_AltRandRange c2)"
    unfolding c3_def by (rule ConfigSet_clamp_range1 [OF b2(1,2,3)])
  have b3: "0 \<le> lb_AltSleepValue c3"
    using f3 b2(4) by (simp add: ConfigSet_fields)
  have f4: "ConfigSet c = (SleepValue c3, lb_RandRange c3, lb_DebugLevel c3,
      lb_AltSleepValue c3,
      min (if lb_AltRandRange c3 = -1 then lb_RandRange c3 else lb_AltRandRange c3)
          (lb_AltSleepValue c3))"
    unfolding c by (rule ConfigSet_clamp_range2 [OF b3])
  have same: "SleepValue c = SleepValue c2" "lb_RandRange c0 = lb_RandRange c2"
    "lb_AltSleepValue c = lb_AltSleepValue c3" "lb_RandRange c = lb_RandRange c3"
    "lb_AltRandRange c0 = lb_AltRandRange c3"
    using f1 f2 f3 f4 by (simp_all add: ConfigSet_fields)
  show "Printf ''lb_range larger than lb_sleep, truncating to %ld'' [ArgInt (SleepValue c)]
             \<in> set (events c)" if "SleepValue c < lb_RandRange c0"
  proof -
    have "Printf ''lb_range larger than lb_sleep, truncating to %ld'' [ArgInt (SleepValue c2)]
            \<in> set (events c3)"
      unfolding c3_def using b2 that same(1,2) by (intro clamp_range1_diagnostic) simp_all
    then show ?thesis
      using events_clamp_range2 [of c3] same unfolding c by auto
  qed
  show "Printf ''lb_range2 larger than lb_delay2, truncating to %ld'' [ArgInt (lb_AltSleepValue c)]
             \<in> set (events c)"
    if "lb_AltSleepValue c < (if lb_AltRandRange c0 = -1 then lb_RandRange c else lb_AltRandRange c0)"
  proof -
    have h: "lb_AltSleepValue c3
               < (if lb_AltRandRange c3 = -1 then lb_RandRange c3 else lb_AltRandRange c3)"
      using that unfolding same(3,4,5) .
    have "Printf ''lb_range2 larger than lb_delay2, truncating to %ld'' [ArgInt (lb_AltSleepValue c3)]
            \<in> set (events (clamp_range2 c3))"
      using h b3 by (rule clamp_range2_diagnostic)
    then show ?thesis
      using same unfolding c by simp
  qed
qed

section \<open>Properties of the hook\<close>

lemma uint_low32: "0 \<le> x \<Longrightarrow> x < 2 ^ 32 \<Longrightarrow> uint (low32 x) = x"
  by (simp add: low32_def uint_word_of_int_eq take_bit_int_eq_self)

lemma uint_tsc_remainder:
  assumes "0 < R" and "R < 2 ^ 32"
  shows "uint (tsc_remainder tsc (low32 R)) = uint (eax_of tsc) mod R"
  using assms by (simp add: tsc_remainder_def uint_mod uint_low32)

lemma uint_add_small:
  fixes a b :: "32 word"
  assumes "uint a + uint b < 2 ^ 32"
  shows "uint (a + b) = uint a + uint b"
  using assms by (simp add: uint_word_ariths take_bit_int_eq_self uint_nonnegative)

lemma uint_sub_small:
  fixes a b :: "32 word"
  assumes "uint b \<le> uint a"
  shows "uint (a - b) = uint a - uint b"
proof -
  have a: "uint a < 2 ^ 32"
    using uint_lt2p [of a] by simp
  have b: "0 \<le> uint b"
    by simp
  have "uint a - uint b < 2 ^ 32"
    using a b by linarith
  then show ?thesis
    using assms by (simp add: uint_word_ariths take_bit_int_eq_self)
qed

lemma hook_delay_value:
  assumes "0 < R" and "R \<le> B" and "B + R < 2 ^ 32"
  shows "uint (hook_delay B R i) =
           (if eax_of (tsc_second i) AND 1 \<noteq> 0
            then B - uint (eax_of (tsc_first i)) mod R
            else B + uint (eax_of (tsc_first i)) mod R)"
proof -
  define off where "off = uint (eax_of (tsc_first i)) mod R"
  have off: "0 \<le> off" "off < R"
    using assms(1) by (simp_all add: off_def)
  have B: "uint (low32 B) = B"
    using assms by (intro uint_low32) auto
  have r: "uint (tsc_remainder (tsc_first i) (low32 R)) = off"
    unfolding off_def using assms by (intro uint_tsc_remainder) auto
  have plus: "uint (low32 B + tsc_remainder (tsc_first i) (low32 R)) = B + off"
    using B r off assms by (subst uint_add_small) auto
  have minus: "uint (low32 B - tsc_remainder (tsc_first i) (low32 R)) = B - off"
    using B r off assms by (subst uint_sub_small) auto
  show ?thesis
    using plus minus by (simp add: hook_delay_def CTcontinue_def Let_def off_def)
qed

lemma low32_nonzero: "0 < x \<Longrightarrow> x < 2 ^ 32 \<Longrightarrow> low32 x \<noteq> 0"
  using uint_low32 [of x] by auto

lemma sleeps_append: "sleeps (xs @ ys) = sleeps xs @ sleeps ys"
  by (induction xs rule: sleeps.induct) simp_all

lemma sleeps_LB_DoSleep:
  "sleeps (events (LB_DoSleep i edi st)) = sleeps (events st) @ [unat edi]"
  by (simp add: LB_DoSleep_def Let_def emit_def sleeps_append)

lemma ParseConfig_fits_hook:
  assumes "ParseConfig bootargs = Inr c"
  shows "SleepValue c + lb_RandRange c < 2 ^ 32 \<and>
         lb_AltSleepValue c + lb_AltRandRange c < 2 ^ 32"
proof -
  obtain c0 where scan: "scan_args bootargs 0 initial_state = Inr c0"
    using assms by (cases "scan_args bootargs 0 initial_state")
      (simp_all add: ParseConfig_def parse_boot_args_def)
  have inv: "cfg_inv c0"
    by (rule scan_args_inv [OF initial_inv scan])
  have c: "c = apply_defaults c0"
    using assms scan by (simp add: ParseConfig_def parse_boot_args_def)
  have s: "SleepValue c < 10000" "lb_AltSleepValue c < 10000"
    "lb_RandRange c \<le> SleepValue c" "lb_AltRandRange c \<le> lb_AltSleepValue c"
    using ConfigSet_apply_defaults [OF inv] inv unfolding c
    by (auto simp: ConfigSet_fields Let_def cfg_inv_def DEFAULT_SLEEP_def)
  then show ?thesis by simp
qed

section \<open>Properties of the pattern scan\<close>

lemma matches_at_iff:
  "matches_at mem p \<longleftrightarrow> (\<exists>w<length BytePatterns. memcmp_eq mem p (BytePatterns ! w))"
  by (simp add: matches_at_def list_ex_length)

lemma memcmp_eq_unique:
  assumes "memcmp_eq mem p a" and "memcmp_eq mem p b" and "length a = length b"
  shows "a = b"
proof -
  have "a = map (\<lambda>k. mem (p + of_nat k)) [0..<length a]"
    using assms(1) by (simp add: memcmp_eq_def)
  also have "\<dots> = b"
    using assms(2,3) by (simp add: memcmp_eq_def)
  finally show ?thesis .
qed

lemma BytePatterns_length: "length BytePatterns = 3"
  by (simp add: BytePatterns_def)

lemma BytePatterns_sizes: "w < length BytePatterns \<Longrightarrow> length (BytePatterns ! w) = 14"
  by (auto simp: BytePatterns_def BytePattern113_def BytePattern115b2_def BytePattern12b3_def
      less_Suc_eq numeral_3_eq_3)

lemma BytePatterns_distinct: "distinct BytePatterns"
  by (simp add: BytePatterns_def BytePattern113_def BytePattern115b2_def BytePattern12b3_def)

lemma match_index_unique:
  assumes "memcmp_eq mem p (BytePatterns ! v)" and "memcmp_eq mem p (BytePatterns ! w)"
    and "v < length BytePatterns" and "w < length BytePatterns"
  shows "v = w"
proof -
  have "BytePatterns ! v = BytePatterns ! w"
    using assms by (intro memcmp_eq_unique [of mem p]) (simp_all add: BytePatterns_sizes)
  then show ?thesis
    using assms(3,4) BytePatterns_distinct by (simp add: nth_eq_iff_index_eq)
qed

lemma pattern_loop_found:
  "w0 \<le> w \<Longrightarrow> w < length BytePatterns \<Longrightarrow> memcmp_eq mem ptr (BytePatterns ! w) \<Longrightarrow>
   pattern_loop mem ptr w0 ja = (w, ptr)"
proof (induction mem ptr w0 ja rule: pattern_loop.induct)
  case (1 mem ptr w0 ja)
  have lt: "w0 < length BytePatterns"
    using "1.prems" by simp
  show ?case
  proof (cases "memcmp_eq mem ptr (BytePatterns ! w0)")
    case True
    then have "w0 = w"
      using "1.prems" lt by (intro match_index_unique [of mem ptr]) auto
    then show ?thesis
      using True lt by (subst pattern_loop.simps) simp
  next
    case False
    then have "w0 \<noteq> w"
      using "1.prems"(3) by auto
    then have "pattern_loop mem ptr (w0 + 1) ja = (w, ptr)"
      using "1.prems" False lt by (intro "1.IH") auto
    then show ?thesis
      using False lt by (subst pattern_loop.simps) simp
  qed
qed

lemma pattern_loop_none:
  "\<not> matches_at mem ptr \<Longrightarrow> w0 \<le> length BytePatterns \<Longrightarrow>
   pattern_loop mem ptr w0 ja = (length BytePatterns, ja)"
proof (induction mem ptr w0 ja rule: pattern_loop.induct)
  case (1 mem ptr w0 ja)
  show ?case
  proof (cases "w0 < length BytePatterns")
    case True
    then have no: "\<not> memcmp_eq mem ptr (BytePatterns ! w0)"
      using "1.prems"(1) by (auto simp: matches_at_iff)
    have "pattern_loop mem ptr (w0 + 1) ja = (length BytePatterns, ja)"
      using True no "1.prems" by (intro "1.IH") auto
    then show ?thesis
      using True no by (subst pattern_loop.simps) simp
  next
    case False
    then show ?thesis
      using "1.prems"(2) by (subst pattern_loop.simps) simp
  qed
qed

lemma window_loop_stop: "ja \<noteq> 0 \<Longrightarrow> window_loop mem i ptr (w, ja) = (w, ja)"
  by (subst window_loop.simps) simp

lemma window_loop_found:
  assumes "K < HOOK_WINDOW_SIZE" and "w < length BytePatterns"
    and "memcmp_eq mem (probe + of_nat K) (BytePatterns ! w)"
    and "\<forall>k<K. \<not> matches_at mem (probe + of_nat k)"
    and "probe + of_nat K \<noteq> 0"
  shows "i \<le> K \<Longrightarrow> window_loop mem i (probe + of_nat i) (w0, 0) = (w, probe + of_nat K)"
proof (induction "K - i" arbitrary: i w0)
  case 0
  then have i: "i = K" by simp
  have "pattern_loop mem (probe + of_nat K) 0 0 = (w, probe + of_nat K)"
    using assms(2,3) by (intro pattern_loop_found) auto
  then show ?case
    using assms(1,5) i by (subst window_loop.simps) (simp add: window_loop_stop)
next
  case (Suc n)
  then have lt: "i < K" by simp
  then have "\<not> matches_at mem (probe + of_nat i)"
    using assms(4) by simp
  then have pl: "pattern_loop mem (probe + of_nat i) 0 0 = (length BytePatterns, 0)"
    by (intro pattern_loop_none) auto
  have "window_loop mem (i + 1) (probe + of_nat (i + 1)) (length BytePatterns, 0)
          = (w, probe + of_nat K)"
    using Suc lt by (intro Suc.hyps(1)) auto
  then show ?case
    using lt assms(1) pl by (subst window_loop.simps) (simp add: ac_simps)
qed

lemma window_loop_none:
  assumes "\<forall>k<HOOK_WINDOW_SIZE. \<not> matches_at mem (probe + of_nat k)"
  shows "snd (window_loop mem i (probe + of_nat i) (w0, 0)) = 0"
proof (induction "HOOK_WINDOW_SIZE - i" arbitrary: i w0)
  case 0
  then show ?case
    by (subst window_loop.simps) simp
next
  case (Suc n)
  then have lt: "i < HOOK_WINDOW_SIZE" by simp
  then have "\<not> matches_at mem (probe + of_nat i)"
    using assms by simp
  then have pl: "pattern_loop mem (probe + of_nat i) 0 0 = (length BytePatterns, 0)"
    by (intro pattern_loop_none) auto
  have "snd (window_loop mem (i + 1) (probe + of_nat (i + 1)) (length BytePatterns, 0)) = 0"
    using Suc lt by (intro Suc.hyps(1)) auto
  then show ?case
    using lt pl by (subst window_loop.simps) (simp add: ac_simps)
qed

lemma first_match_exists:
  assumes "k < n" and "matches_at mem (probe + of_nat k)"
  obtains K w where "K < n" "w < length BytePatterns"
    "memcmp_eq mem (probe + of_nat K) (BytePatterns ! w)"
    "\<forall>j<K. \<not> matches_at mem (probe + of_nat j)"
proof -
  define K where "K = (LEAST j. matches_at mem (probe + of_nat j))"
  have m: "matches_at mem (probe + of_nat K)"
    unfolding K_def using assms(2) by (rule LeastI)
  have le: "K \<le> k"
    unfolding K_def using assms(2) by (rule Least_le)
  have first: "\<forall>j<K. \<not> matches_at mem (probe + of_nat j)"
    unfolding K_def using not_less_Least by blast
  obtain w where "w < length BytePatterns" "memcmp_eq mem (probe + of_nat K) (BytePatterns ! w)"
    using m by (auto simp: matches_at_iff)
  then show ?thesis
    using that [of K w] le assms(1) first by simp
qed

lemma memcmp_eq_first_byte:
  assumes "memcmp_eq mem p (b # bs)"
  shows "mem p = b"
proof -
  have "map (\<lambda>k. mem (p + of_nat k)) [0..<Suc (length bs)] = b # bs"
    using assms by (simp add: memcmp_eq_def)
  then have "map (\<lambda>k. mem (p + of_nat k)) (0 # [Suc 0..<Suc (length bs)]) = b # bs"
    by (simp only: upt_conv_Cons zero_less_Suc)
  then show ?thesis by simp
qed

lemma matches_at_first_byte: "matches_at mem p \<Longrightarrow> mem p = 0x48"
  by (auto simp: matches_at_def BytePatterns_def BytePattern113_def BytePattern115b2_def
      BytePattern12b3_def dest: memcmp_eq_first_byte)

lemma window_not_null:
  fixes p :: "64 word"
  assumes "0 < unat p" and "unat p + n \<le> 2 ^ 64" and "k < n"
  shows "p + of_nat k \<noteq> 0"
proof -
  have "k < 2 ^ 64"
    using assms(2,3) by simp
  then have k: "unat (of_nat k :: 64 word) = k"
    by (simp add: unat_of_nat)
  have "unat p + unat (of_nat k :: 64 word) < 2 ^ LENGTH(64)"
    using assms(2,3) k by simp
  then have "unat (p + of_nat k) = unat p + unat (of_nat k :: 64 word)"
    by (simp only: unat_add_lem)
  then have "unat (p + of_nat k) \<noteq> 0"
    using assms(1) by simp
  then show ?thesis
    by auto
qed

section \<open>Properties of the symbol lookup\<close>











lemma name_loop_find:
  "i \<le> unat (symtab_nsyms k (SymbolTable s)) \<Longrightarrow>
   name_loop k s name i (NameList s + sizeof_nlist_64 * of_nat i) =
     (case find (\<lambda>p. entry_name k s p = name)
             (map (\<lambda>j. NameList s + sizeof_nlist_64 * of_nat j)
                [i..<unat (symtab_nsyms k (SymbolTable s))]) of
        None \<Rightarrow> 0
      | Some p \<Rightarrow> nlist_n_value k p)"
proof (induction "unat (symtab_nsyms k (SymbolTable s)) - i" arbitrary: i)
  case 0
  then have "i = unat (symtab_nsyms k (SymbolTable s))"
    by simp
  then show ?case
    by (subst name_loop.simps) simp
next
  case (Suc n)
  then have lt: "i < unat (symtab_nsyms k (SymbolTable s))"
    by simp
  have next_entry: "NameList s + sizeof_nlist_64 * of_nat i + sizeof_nlist_64
                      = NameList s + sizeof_nlist_64 * of_nat (i + 1)"
    by (simp add: algebra_simps)
  have IH: "name_loop k s name (i + 1) (NameList s + sizeof_nlist_64 * of_nat (i + 1)) =
     (case find (\<lambda>p. entry_name k s p = name)
             (map (\<lambda>j. NameList s + sizeof_nlist_64 * of_nat j)
                [i + 1..<unat (symtab_nsyms k (SymbolTable s))]) of
        None \<Rightarrow> 0
      | Some p \<Rightarrow> nlist_n_value k p)"
    using Suc lt by (intro Suc.hyps(1)) auto
  have split: "[i..<unat (symtab_nsyms k (SymbolTable s))]
                 = i # [i + 1..<unat (symtab_nsyms k (SymbolTable s))]"
    using lt by (simp add: upt_conv_Cons)
  show ?case
    using lt IH
    by (subst name_loop.simps, subst split) (simp add: next_entry entry_name_def)
qed

lemma name_loop_first_symbol:
  "name_loop k s name 0 (NameList s) = first_symbol k s name"
  using name_loop_find [of 0 k s name] by (simp add: first_symbol_def name_entries_def)



lemma example_populated: "populated example_statics"
  by (simp add: populated_def example_statics_def)

lemma first_symbol_same_symbols:
  "same_symbols k k' \<Longrightarrow> first_symbol k' s name = first_symbol k s name"
  by (simp add: first_symbol_def name_entries_def entry_name_def same_symbols_def
      cong: option.case_cong)

lemma SymbolLookup_populated:
  assumes "populated s"
  shows "SymbolLookup k s name =
           Some (first_symbol k s name, s,
                 if first_symbol k s name = 0 then symbol_not_found name else [])"
  using assms by (simp add: SymbolLookup_def populated_def name_loop_first_symbol Let_def)

lemma lookup_all_populated:
  "populated s \<Longrightarrow> lookup_all k s names = Some (map (first_symbol k s) names, s)"
  by (induction names) (simp_all add: SymbolLookup_populated)

lemma parse_image_Inl:
  assumes "parse_image k s = Some (Inl (s', es))"
  shows "s' = s \<or> s' = s\<lparr>SymbolTable := 0\<rparr>"
proof -
  define MachHeader0 where "MachHeader0 = printf_addr k - printf_unslid k + KERNEL_BASE"
  show ?thesis
  proof (cases "mh_magic k MachHeader0 \<noteq> MH_MAGIC_64")
    case True
    then show ?thesis
      using assms by (simp add: parse_image_def Let_def MachHeader0_def)
  next
    case False
    then obtain MachHeader where ph: "prelink_header k MachHeader0 = Some MachHeader"
      using assms by (cases "prelink_header k MachHeader0")
        (simp_all add: parse_image_def Let_def MachHeader0_def)
    obtain LinkEdit where le: "FindSegment64 k MachHeader SEG_LINKEDIT = Some LinkEdit"
      using assms False ph by (cases "FindSegment64 k MachHeader SEG_LINKEDIT")
        (simp_all add: parse_image_def Let_def MachHeader0_def)
    show ?thesis
    proof (cases "LinkEdit = 0")
      case True
      then show ?thesis
        using assms False ph le by (simp add: parse_image_def Let_def MachHeader0_def)
    next
      case nz: False
      obtain st where fs: "find_symtab_loop k MachHeader (MachHeader + sizeof_mach_header_64) = Some st"
        using assms False ph le nz
        by (cases "find_symtab_loop k MachHeader (MachHeader + sizeof_mach_header_64)")
          (simp_all add: parse_image_def Let_def MachHeader0_def)
      show ?thesis
        using assms False ph le nz fs
        by (cases "st = 0") (simp_all add: parse_image_def Let_def MachHeader0_def)
    qed
  qed
qed

lemma parse_image_Inl_unpopulated:
  assumes "parse_image k s = Some (Inl (s', es))" and "\<not> populated s"
  shows "\<not> populated s'"
  using parse_image_Inl [OF assms(1)] assms(2) by (auto simp: populated_def)

lemma SymbolLookup_repeat:
  assumes "SymbolLookup k s0 name = Some (a, s, es)" and "populated s"
  shows "SymbolLookup k s name = Some (a, s, es)"
proof (cases "populated s0")
  case True
  have "s0 = s"
    using assms(1) SymbolLookup_populated [OF True, of k name] by simp
  then show ?thesis
    using assms(1) by simp
next
  case False
  then have un: "SymbolTable s0 = 0 \<or> StringTable s0 = 0 \<or> NameList s0 = 0"
    by (simp add: populated_def)
  show ?thesis
  proof (cases "parse_image k s0")
    case None
    then show ?thesis
      using assms(1) un by (simp add: SymbolLookup_def)
  next
    case (Some res)
    show ?thesis
    proof (cases res)
      case (Inl early)
      obtain s' es' where early: "early = (s', es')"
        by (cases early)
      have "s' = s"
        using assms(1) un Some Inl early by (simp add: SymbolLookup_def)
      moreover have "\<not> populated s'"
        using Some Inl early False by (intro parse_image_Inl_unpopulated [of k s0 s' es']) simp_all
      ultimately show ?thesis
        using assms(2) by simp
    next
      case (Inr s')
      have "SymbolLookup k s0 name =
          Some (first_symbol k s' name, s',
                 if first_symbol k s' name = 0 then symbol_not_found name else [])"
        using un Some Inr
        by (simp add: SymbolLookup_def name_loop_first_symbol Let_def)
      then have first: "Some (a, s, es) =
          Some (first_symbol k s' name, s',
                 if first_symbol k s' name = 0 then symbol_not_found name else [])"
        using assms(1) by (simp only:)
      then have s: "s' = s"
        by simp
      have "Some (a, s, es) =
          Some (first_symbol k s name, s,
                 if first_symbol k s name = 0 then symbol_not_found name else [])"
        using first unfolding s .
      also have "\<dots> = SymbolLookup k s name"
        by (rule SymbolLookup_populated [OF assms(2), symmetric])
      finally show ?thesis
        by simp
    qed
  qed
qed

text \<open>
  A remark on the loop bound \<^verbatim>\<open>MachHeader + sizeofcmds\<close>, which both walks over the load
  commands share: a command that starts in the last 32 bytes of the commands is not looked
  at. No segment command is that short, but the symbol-table command is (24 bytes): in the
  synthetic kernel without its fourth command, so that \<^verbatim>\<open>LC_SYMTAB\<close> comes last, the
  lookup does not find the symbol table.
\<close>

lemma symtab_last_command_missed:
  "SymbolLookup (example_kernel\<lparr>mh_sizeofcmds := (\<lambda>p. if p = example_header then 168 else 0)\<rparr>)
     initial_statics ''_PE_boot_args''
   = Some (0, initial_statics,
       [Printf ''****** ********* ********* Latebloom KLOOKUP: LC_SYMTAB NOT FOUND'' [],
        IOLog ''latebloom: LC_SYMTAB not found'' []])"
  by code_simp

section \<open>Properties of the initialisation entry point\<close>

text \<open>
  A run on the synthetic kernel (Darwin 20, boot-args \<^verbatim>\<open>-v lbloom=90,20,1\<close>): the symbol
  table is resolved, the boot-args are parsed, the third signature is found at offset 5 of
  \<^verbatim>\<open>probeBus\<close>, the jump is written there and the device is registered.
\<close>

lemma latebloom_start_example:
  "map_option (\<lambda>w. (ConfigSet (lb w), WhichPattern (lb w), lb_jump_address (lb w),
                     MajorDev (lb w), statics w,
                     map (code_mem w) [0xffffff7f9000100a, 0xffffff7f9000100b, 0xffffff7f90002100]))
     (latebloom_start example_env (initial_world example_code))
   = Some ((90, 20, 1, 90, 20), 2, 0xffffff7f90001018, 30, example_statics, [0xff, 0x25, 0x48])"
  by code_simp

subsection \<open>Abort on a zero delay\<close>

text \<open>
  Claim C3, as the code has it: \<open>ParseConfig\<close> aborts (returns early, so that no hook is
  installed) exactly when, at some position the scan visits, a \<^verbatim>\<open>latebloom=\<close> or
  \<^verbatim>\<open>lbloom=\<close> key stands whose delay field reads as zero, that is, has no leading digit
  or has only zeros among its first four digits. For every other boot-args string the scan
  runs to the end and the defaults produce a configuration.
\<close>

theorem ParseConfig_abort_iff:
  "isl (ParseConfig bootargs) \<longleftrightarrow> (\<exists>k. k < strlen bootargs \<and> aborts_at bootargs k)"
proof -
  have "isl (ParseConfig bootargs) = isl (scan_args bootargs 0 initial_state)"
    by (cases "scan_args bootargs 0 initial_state")
       (simp_all add: ParseConfig_def parse_boot_args_def)
  then show ?thesis
    using isl_scan_args [of 0 bootargs initial_state] by simp
qed

text \<open>
  The claim as stated, with ``explicit value 0'' read as a delay field that starts with a
  digit, fails: an empty \<^verbatim>\<open>latebloom=\<close> aborts too (\<^verbatim>\<open>lbval\<close> stays \<open>-1\<close>, and the test
  is \<^verbatim>\<open>lbval <= 0\<close>).
\<close>

theorem ParseConfig_abort_counterexample:
  "isl (ParseConfig ''latebloom='') \<and> \<not> spec_explicit_zero_key ''latebloom=''"
  by code_simp

subsection \<open>The composite key\<close>

text \<open>
  Claim C4: the composite key with all five fields present assigns them in fixed order. For
  fields of at most four digits, with a nonzero delay and a delay2 field that is not empty,
  followed by neither a digit nor a comma, the branch of \<^verbatim>\<open>lbloom=\<close> stores the five values
  in SleepValue, RandRange, DebugLevel, AltSleepValue and AltRandRange; and parsing
  \<^verbatim>\<open>lbloom=90,20,1,30,5\<close> gives 90, 20, 1, 30 and 5, both right after the scan and in the
  configuration that \<open>ParseConfig\<close> returns.
\<close>

theorem ParseConfig_lbloom_five_fields:
  assumes "is_field f1" "is_field f2" "is_field f3" "is_field f4" "is_field f5"
    and "field_end e" and "field_val f1 \<noteq> 0" and "f4 \<noteq> []"
  shows
    "arg_lbloom (f1 @ '','' @ f2 @ '','' @ f3 @ '','' @ f4 @ '','' @ f5 @ e) st =
       Inr (st\<lparr>SleepValue := field_val f1, lb_RandRange := field_val f2,
                lb_DebugLevel := field_val f3, lb_AltSleepValue := field_val f4,
                lb_AltRandRange := field_val f5\<rparr>) \<and>
     map_sum ConfigSet ConfigSet (scan_args ''lbloom=90,20,1,30,5'' 0 initial_state)
       = Inr (90, 20, 1, 30, 5) \<and>
     map_sum ConfigSet ConfigSet (ParseConfig ''lbloom=90,20,1,30,5'') = Inr (90, 20, 1, 30, 5)"
proof -
  have general: "arg_lbloom (f1 @ '','' @ f2 @ '','' @ f3 @ '','' @ f4 @ '','' @ f5 @ e) st =
       Inr (st\<lparr>SleepValue := field_val f1, lb_RandRange := field_val f2,
                lb_DebugLevel := field_val f3, lb_AltSleepValue := field_val f4,
                lb_AltRandRange := field_val f5\<rparr>)"
    using arg_lbloom_five [OF assms(1-6), of st] assms(7,8) by simp
  have scan: "map_sum ConfigSet ConfigSet (scan_args ''lbloom=90,20,1,30,5'' 0 initial_state)
       = Inr (90, 20, 1, 30, 5)"
    by code_simp
  have parse: "map_sum ConfigSet ConfigSet (ParseConfig ''lbloom=90,20,1,30,5'')
       = Inr (90, 20, 1, 30, 5)"
    by code_simp
  show ?thesis
    by (intro conjI general scan parse)
qed

theorem ParseConfig_lbloom_five_fields_witness:
  "arg_lbloom ''90,20,1,30,5'' initial_state =
     Inr (initial_state\<lparr>SleepValue := 90, lb_RandRange := 20, lb_DebugLevel := 1,
                         lb_AltSleepValue := 30, lb_AltRandRange := 5\<rparr>)"
proof -
  have f: "is_field ''90''" "is_field ''20''" "is_field ''1''" "is_field ''30''" "is_field ''5''"
    by (simp_all add: is_field_def is_digit_def MAX_ARG_DIGITS_def)
  have e: "field_end []"
    by (simp add: field_end_def ch_def is_digit_def)
  have v: "field_val ''90'' = 90" "field_val ''20'' = 20" "field_val ''1'' = 1"
    "field_val ''30'' = 30" "field_val ''5'' = 5"
    by (simp_all add: field_val_def digit_val_def)
  have nz: "field_val ''90'' \<noteq> 0" and ne: "''30'' \<noteq> []"
    using v by simp_all
  show ?thesis
    using ParseConfig_lbloom_five_fields [OF f e nz ne, of initial_state] v by simp
qed

text \<open>
  Claim C5, as the code has it. Let the value of \<^verbatim>\<open>lbloom=\<close> be up to five fields of at
  most four digits, separated by commas and followed by neither a digit nor a comma. A delay
  field that is empty or zero aborts, whatever follows it (further fields or none): for a
  delay field \<open>f1\<close> followed by any text \<open>r\<close> that does not start with a digit, the key
  aborts exactly when the value of \<open>f1\<close> is 0. Otherwise the delay is stored; the range and
  debug fields are 0 when empty or absent; an empty range2 field is 0; a delay2 field that is
  present but empty takes the delay just parsed; and absent delay2 and range2 fields leave
  their variables as they were.
\<close>

theorem lbloom_fields:
  assumes f: "is_field f1" "is_field f2" "is_field f3" "is_field f4" "is_field f5"
    and e: "field_end e"
  shows
    "(field_val f1 = 0 \<longrightarrow> isl (arg_lbloom (f1 @ e) st)) \<and>
     (field_val f1 \<noteq> 0 \<longrightarrow>
       arg_lbloom (f1 @ e) st =
         Inr (st\<lparr>SleepValue := field_val f1, lb_RandRange := 0, lb_DebugLevel := 0\<rparr>) \<and>
       arg_lbloom (f1 @ '','' @ f2 @ e) st =
         Inr (st\<lparr>SleepValue := field_val f1, lb_RandRange := field_val f2,
                  lb_DebugLevel := 0\<rparr>) \<and>
       arg_lbloom (f1 @ '','' @ f2 @ '','' @ f3 @ e) st =
         Inr (st\<lparr>SleepValue := field_val f1, lb_RandRange := field_val f2,
                  lb_DebugLevel := field_val f3\<rparr>) \<and>
       arg_lbloom (f1 @ '','' @ f2 @ '','' @ f3 @ '','' @ f4 @ e) st =
         Inr (st\<lparr>SleepValue := field_val f1, lb_RandRange := field_val f2,
                  lb_DebugLevel := field_val f3,
                  lb_AltSleepValue := (if f4 = [] then field_val f1 else field_val f4)\<rparr>) \<and>
       arg_lbloom (f1 @ '','' @ f2 @ '','' @ f3 @ '','' @ f4 @ '','' @ f5 @ e) st =
         Inr (st\<lparr>SleepValue := field_val f1, lb_RandRange := field_val f2,
                  lb_DebugLevel := field_val f3,
                  lb_AltSleepValue := (if f4 = [] then field_val f1 else field_val f4),
                  lb_AltRandRange := field_val f5\<rparr>)) \<and>
     field_val [] = 0 \<and>
     (\<not> is_digit (ch r 0) \<longrightarrow> (isl (arg_lbloom (f1 @ r) st) \<longleftrightarrow> field_val f1 = 0)) \<and>
     (isl (arg_lbloom (f1 @ '','' @ r) st) \<longleftrightarrow> field_val f1 = 0)"
proof -
  have nd: "\<not> is_digit (ch e 0)"
    using e by (simp add: field_end_def)
  have z: "field_val f1 = 0 \<Longrightarrow> isl (arg_lbloom (f1 @ e) st)"
    by (rule arg_lbloom_zero [OF f(1) nd])
  have any: "isl (arg_lbloom (f1 @ t) st) \<longleftrightarrow> field_val f1 = 0" if "\<not> is_digit (ch t 0)" for t
    by (simp add: isl_arg_lbloom ExtractArgValue_def digit_loop_field [OF f(1) that])
  have r1: "\<not> is_digit (ch r 0) \<longrightarrow> (isl (arg_lbloom (f1 @ r) st) \<longleftrightarrow> field_val f1 = 0)"
    using any by blast
  have r2: "isl (arg_lbloom (f1 @ '','' @ r) st) \<longleftrightarrow> field_val f1 = 0"
    using any [of "'','' @ r"] ch_comma_digit [of r] by simp
  have "field_val [] = 0"
    by (simp add: field_val_def)
  with z r1 r2 arg_lbloom_one [OF f(1) e, of st] arg_lbloom_two [OF f(1,2) e, of st]
    arg_lbloom_three [OF f(1,2,3) e, of st] arg_lbloom_four [OF f(1,2,3,4) e, of st]
    arg_lbloom_five [OF f e, of st]
  show ?thesis
    by blast
qed

theorem lbloom_fields_witness:
  "is_field ''90'' \<and> is_field [] \<and> is_field ''1'' \<and> is_field ''5'' \<and> is_field ''0'' \<and>
   field_end [] \<and> \<not> is_digit (ch '' lb_debug=1'' 0) \<and>
   arg_lbloom ''90,,1,,5'' initial_state =
     Inr (initial_state\<lparr>SleepValue := 90, lb_RandRange := 0, lb_DebugLevel := 1,
                         lb_AltSleepValue := 90, lb_AltRandRange := 5\<rparr>) \<and>
   arg_lbloom ''90,,1'' initial_state =
     Inr (initial_state\<lparr>SleepValue := 90, lb_RandRange := 0, lb_DebugLevel := 1\<rparr>) \<and>
   isl (arg_lbloom [] initial_state) \<and>
   isl (arg_lbloom ''0'' initial_state) \<and>
   isl (arg_lbloom ''0,20'' initial_state) \<and>
   isl (arg_lbloom '',,1'' initial_state) \<and>
   isl (arg_lbloom ''0 lb_debug=1'' initial_state) \<and>
   \<not> isl (arg_lbloom ''90,20'' initial_state)"
proof -
  have a: "is_field ''90''" and b: "is_field []" and c: "is_field ''1''" and d: "is_field ''5''"
    and z: "is_field ''0''"
    by (simp_all add: is_field_def is_digit_def MAX_ARG_DIGITS_def)
  have e: "field_end []"
    by (simp add: field_end_def ch_def is_digit_def)
  have nd: "\<not> is_digit (ch '' lb_debug=1'' 0)"
    by (simp add: ch_def is_digit_def)
  have v: "field_val ''90'' = 90" "field_val ''1'' = 1" "field_val ''5'' = 5" "field_val [] = 0"
    "field_val ''0'' = 0"
    by (simp_all add: field_val_def digit_val_def)
  have full: "arg_lbloom ''90,,1,,5'' initial_state =
     Inr (initial_state\<lparr>SleepValue := 90, lb_RandRange := 0, lb_DebugLevel := 1,
                         lb_AltSleepValue := 90, lb_AltRandRange := 5\<rparr>)"
    and three: "arg_lbloom ''90,,1'' initial_state =
     Inr (initial_state\<lparr>SleepValue := 90, lb_RandRange := 0, lb_DebugLevel := 1\<rparr>)"
    and go: "\<not> isl (arg_lbloom ''90,20'' initial_state)"
    using lbloom_fields [OF a b c b d e, where st = initial_state and r = "''20''"] v
    by simp_all
  have empty: "isl (arg_lbloom [] initial_state)"
    and blank: "isl (arg_lbloom '',,1'' initial_state)"
    using lbloom_fields [OF b b c b d e, where st = initial_state and r = "'',1''"] v
    by simp_all
  have zero: "isl (arg_lbloom ''0'' initial_state)"
    and zero_more: "isl (arg_lbloom ''0,20'' initial_state)"
    using lbloom_fields [OF z b c b d e, where st = initial_state and r = "''20''"] v
    by simp_all
  have zero_key: "isl (arg_lbloom ''0 lb_debug=1'' initial_state)"
    using lbloom_fields [OF z b c b d e, where st = initial_state and r = "'' lb_debug=1''"] v nd
    by simp
  show ?thesis
    by (intro conjI a b c d z e nd full three empty blank zero zero_more zero_key go)
qed

text \<open>
  The claim as stated fails for the delay2 field: left empty between commas it is not 0 but
  the Phase-1 delay (\<^verbatim>\<open>lb_AltSleepValue = (j == 0) ? SleepValue : lbval\<close>).
\<close>

theorem lbloom_blank_delay2_counterexample:
  "map_sum ConfigSet ConfigSet (scan_args ''lbloom=90,20,1,,5'' 0 initial_state)
     = Inr (90, 20, 1, 90, 5) \<and>
   lb_AltSleepValue (projr (ParseConfig ''lbloom=90,20,1,,5'')) \<noteq> 0"
  by code_simp

subsection \<open>The resolved configuration\<close>

text \<open>
  Claim C6, as the code has it. When the scan ends with the variables \<open>c0\<close> and
  \<open>ParseConfig\<close> returns the configuration \<open>c\<close>: no sentinel (\<open>-1\<close>) is left; an unset
  Phase-1 delay is the default 60; an unset Phase-2 delay is the resolved Phase-1 delay; each
  range is the smaller of its value and its paired delay, where an unset Phase-2 range first
  takes the resolved Phase-1 range; so \<open>0 \<le> range \<le> delay\<close> in both phases; and a range
  that was truncated has its message in the log.
\<close>

theorem ParseConfig_resolved:
  assumes "scan_args bootargs 0 initial_state = Inr c0"
    and "ParseConfig bootargs = Inr c"
  shows "SleepValue c = (if SleepValue c0 = 0 then DEFAULT_SLEEP else SleepValue c0) \<and>
    lb_AltSleepValue c = (if lb_AltSleepValue c0 = -1 then SleepValue c else lb_AltSleepValue c0) \<and>
    lb_RandRange c = min (lb_RandRange c0) (SleepValue c) \<and>
    lb_AltRandRange c =
      min (if lb_AltRandRange c0 = -1 then lb_RandRange c else lb_AltRandRange c0)
          (lb_AltSleepValue c) \<and>
    lb_AltSleepValue c \<noteq> -1 \<and> lb_AltRandRange c \<noteq> -1 \<and> 0 < SleepValue c \<and>
    0 \<le> lb_RandRange c \<and> lb_RandRange c \<le> SleepValue c \<and>
    0 \<le> lb_AltRandRange c \<and> lb_AltRandRange c \<le> lb_AltSleepValue c \<and>
    (SleepValue c < lb_RandRange c0 \<longrightarrow>
       Printf ''lb_range larger than lb_sleep, truncating to %ld'' [ArgInt (SleepValue c)]
         \<in> set (events c)) \<and>
    (lb_AltSleepValue c
       < (if lb_AltRandRange c0 = -1 then lb_RandRange c else lb_AltRandRange c0) \<longrightarrow>
       Printf ''lb_range2 larger than lb_delay2, truncating to %ld'' [ArgInt (lb_AltSleepValue c)]
         \<in> set (events c))"
proof -
  have inv: "cfg_inv c0"
    by (rule scan_args_inv [OF initial_inv assms(1)])
  have c: "c = apply_defaults c0"
    using assms by (simp add: ParseConfig_def parse_boot_args_def)
  have "ConfigSet c =
     (let s = (if SleepValue c0 = 0 then DEFAULT_SLEEP else SleepValue c0);
          a = (if lb_AltSleepValue c0 = -1 then s else lb_AltSleepValue c0);
          r = min (lb_RandRange c0) s
      in (s, r, lb_DebugLevel c0, a,
          min (if lb_AltRandRange c0 = -1 then r else lb_AltRandRange c0) a))"
    unfolding c by (rule ConfigSet_apply_defaults [OF inv])
  then have f: "SleepValue c = (if SleepValue c0 = 0 then DEFAULT_SLEEP else SleepValue c0)"
    "lb_AltSleepValue c = (if lb_AltSleepValue c0 = -1 then SleepValue c else lb_AltSleepValue c0)"
    "lb_RandRange c = min (lb_RandRange c0) (SleepValue c)"
    "lb_AltRandRange c =
      min (if lb_AltRandRange c0 = -1 then lb_RandRange c else lb_AltRandRange c0)
          (lb_AltSleepValue c)"
    by (simp_all add: ConfigSet_fields Let_def)
  have s: "0 < SleepValue c"
    using inv f(1) by (simp add: cfg_inv_def DEFAULT_SLEEP_def)
  have a: "0 \<le> lb_AltSleepValue c"
    using inv f(2) s by (auto simp: cfg_inv_def)
  have r: "0 \<le> lb_RandRange c" "lb_RandRange c \<le> SleepValue c"
    using inv f(3) s by (auto simp: cfg_inv_def)
  have ar: "0 \<le> lb_AltRandRange c" "lb_AltRandRange c \<le> lb_AltSleepValue c"
    using inv f(4) a r by (auto simp: cfg_inv_def min_def)
  have ne: "lb_AltSleepValue c \<noteq> -1" "lb_AltRandRange c \<noteq> -1"
    using a ar(1) by auto
  have d1: "SleepValue c < lb_RandRange c0 \<longrightarrow>
       Printf ''lb_range larger than lb_sleep, truncating to %ld'' [ArgInt (SleepValue c)]
         \<in> set (events c)"
    unfolding c using apply_defaults_diagnostics(1) [OF inv] by blast
  have d2: "lb_AltSleepValue c
       < (if lb_AltRandRange c0 = -1 then lb_RandRange c else lb_AltRandRange c0) \<longrightarrow>
       Printf ''lb_range2 larger than lb_delay2, truncating to %ld'' [ArgInt (lb_AltSleepValue c)]
         \<in> set (events c)"
    unfolding c using apply_defaults_diagnostics(2) [OF inv] by blast
  show ?thesis
    by (intro conjI f s a r ar ne d1 d2)
qed

theorem ParseConfig_resolved_witness:
  "map_sum ConfigSet ConfigSet (scan_args ''lb_range=200'' 0 initial_state)
     = Inr (0, 200, 0, -1, -1) \<and>
   map_sum ConfigSet ConfigSet (ParseConfig ''lb_range=200'') = Inr (60, 60, 0, 60, 60) \<and>
   Printf ''lb_range larger than lb_sleep, truncating to %ld'' [ArgInt 60]
     \<in> set (events (projr (ParseConfig ''lb_range=200'')))"
proof -
  define c0 where "c0 = projr (scan_args ''lb_range=200'' 0 initial_state)"
  define c where "c = projr (ParseConfig ''lb_range=200'')"
  have "\<not> isl (scan_args ''lb_range=200'' 0 initial_state)"
    by code_simp
  then have h0: "scan_args ''lb_range=200'' 0 initial_state = Inr c0"
    by (simp add: c0_def)
  have "\<not> isl (ParseConfig ''lb_range=200'')"
    by code_simp
  then have h: "ParseConfig ''lb_range=200'' = Inr c"
    by (simp add: c_def)
  have v0: "ConfigSet c0 = (0, 200, 0, -1, -1)"
    unfolding c0_def by code_simp
  have d: "lb_DebugLevel c = 0"
    unfolding c_def by code_simp
  note inst = ParseConfig_resolved [OF h0 h]
  have fields: "ConfigSet c = (60, 60, 0, 60, 60)"
    using inst v0 d by (simp add: ConfigSet_def DEFAULT_SLEEP_def)
  have msg: "Printf ''lb_range larger than lb_sleep, truncating to %ld'' [ArgInt 60]
               \<in> set (events c)"
    using inst v0 by (auto simp: ConfigSet_def DEFAULT_SLEEP_def)
  have p: "projr (ParseConfig ''lb_range=200'') = c"
    by (simp add: h)
  show ?thesis
    unfolding p using fields msg v0 h0 h by simp
qed

text \<open>
  The claim as stated fails where it says that an unset Phase-2 range equals the resolved
  Phase-1 range: with a Phase-2 delay below the Phase-1 range, it is truncated to that delay.
\<close>

theorem ParseConfig_range2_counterexample:
  "lb_AltRandRange (projr (scan_args ''lb_range=50 lb_delay2=10'' 0 initial_state)) = -1 \<and>
   lb_RandRange (projr (ParseConfig ''lb_range=50 lb_delay2=10'')) = 50 \<and>
   lb_AltRandRange (projr (ParseConfig ''lb_range=50 lb_delay2=10'')) = 10 \<and>
   lb_AltRandRange (projr (ParseConfig ''lb_range=50 lb_delay2=10''))
     \<noteq> lb_RandRange (projr (ParseConfig ''lb_range=50 lb_delay2=10''))"
  by code_simp

subsection \<open>The jittered delay\<close>

text \<open>
  Claim C1, as the code has it. For a base delay \<open>B\<close> and a jitter range \<open>R\<close> with
  \<open>0 < R \<le> B\<close> and \<open>B + R < 2 ^ 32\<close>, and for all values of the time-stamp counter at its two
  reads: the offset is the low 32 bits of the first read modulo \<open>R\<close>, in \<open>[0, R)\<close>; the delay
  is \<open>B\<close> minus the offset when the second read is odd and \<open>B\<close> plus the offset when it is
  even; so it lies in \<open>[B - R, B + R]\<close> and is not negative. This is the duration of the one
  sleep of a run of the hook on the jitter path, in Phase 1 with \<^verbatim>\<open>SleepValue\<close> and
  \<^verbatim>\<open>lb_RandRange\<close>, in Phase 2 with \<^verbatim>\<open>lb_AltSleepValue\<close> and \<^verbatim>\<open>lb_AltRandRange\<close>. The
  bound on \<open>B + R\<close> holds for every configuration the parser produces (see
  \<open>ParseConfig_fits_hook\<close>).
\<close>

theorem hook_delay_range:
  assumes "0 < R" and "R \<le> B" and "B + R < 2 ^ 32"
  shows
    "(let off = uint (eax_of (tsc_first i)) mod R; d = uint (hook_delay B R i) in
        0 \<le> off \<and> off < R \<and>
        d = (if eax_of (tsc_second i) AND 1 \<noteq> 0 then B - off else B + off) \<and>
        B - R \<le> d \<and> d \<le> B + R \<and> 0 \<le> d) \<and>
     ((CurrentThread st = 0 \<or> CurrentThread st = gs_thread i) \<and>
      SleepValue st = B \<and> lb_RandRange st = R \<longrightarrow>
        sleeps (events (latebloom_hook i st))
          = sleeps (events st) @ [unat (hook_delay B R i)]) \<and>
     (CurrentThread st \<noteq> 0 \<and> CurrentThread st \<noteq> gs_thread i \<and>
      lb_AltSleepValue st = B \<and> lb_AltRandRange st = R \<longrightarrow>
        sleeps (events (latebloom_hook i st))
          = sleeps (events st) @ [unat (hook_delay B R i)])"
proof -
  define off where "off = uint (eax_of (tsc_first i)) mod R"
  define d where "d = uint (hook_delay B R i)"
  have off: "0 \<le> off" "off < R"
    using assms(1) by (simp_all add: off_def)
  have d: "d = (if eax_of (tsc_second i) AND 1 \<noteq> 0 then B - off else B + off)"
    unfolding d_def off_def by (rule hook_delay_value [OF assms])
  have bounds: "B - R \<le> d" "d \<le> B + R" "0 \<le> d"
    using d off assms by (auto split: if_splits)
  have val: "let off = uint (eax_of (tsc_first i)) mod R; d = uint (hook_delay B R i) in
        0 \<le> off \<and> off < R \<and>
        d = (if eax_of (tsc_second i) AND 1 \<noteq> 0 then B - off else B + off) \<and>
        B - R \<le> d \<and> d \<le> B + R \<and> 0 \<le> d"
    using off d bounds unfolding Let_def off_def d_def by blast
  have R: "low32 R \<noteq> 0" and B: "low32 B \<noteq> 0"
    using assms by (intro low32_nonzero; simp)+
  have phase1: "sleeps (events (latebloom_hook i st))
          = sleeps (events st) @ [unat (hook_delay B R i)]"
    if "CurrentThread st = 0 \<or> CurrentThread st = gs_thread i"
      "SleepValue st = B" "lb_RandRange st = R"
    using that R by (auto simp: latebloom_hook_def LB_Phase1_def Let_def sleeps_LB_DoSleep)
  have phase2: "sleeps (events (latebloom_hook i st))
          = sleeps (events st) @ [unat (hook_delay B R i)]"
    if "CurrentThread st \<noteq> 0" "CurrentThread st \<noteq> gs_thread i"
      "lb_AltSleepValue st = B" "lb_AltRandRange st = R"
    using that R B by (auto simp: latebloom_hook_def LB_Phase2_def Let_def sleeps_LB_DoSleep)
  show ?thesis
    using val phase1 phase2 by blast
qed

theorem hook_delay_range_witness:
  "(0::int) < 20 \<and> (20::int) \<le> 60 \<and>
   uint (hook_delay 60 20
           \<lparr>gs_thread = 0x10, tsc_first = 0x100000007, tsc_second = 3, devfs_node = 0\<rparr>) = 53 \<and>
   sleeps (events (latebloom_hook
             \<lparr>gs_thread = 0x10, tsc_first = 0x100000007, tsc_second = 3, devfs_node = 0\<rparr>
             (initial_state\<lparr>SleepValue := 60, lb_RandRange := 20\<rparr>))) = [53]"
proof -
  define i where
    "i = \<lparr>gs_thread = 0x10, tsc_first = 0x100000007, tsc_second = 3, devfs_node = 0::64 word\<rparr>"
  define st where "st = initial_state\<lparr>SleepValue := 60, lb_RandRange := 20\<rparr>"
  have e1: "uint (eax_of (tsc_first i)) = 7"
    unfolding i_def by code_simp
  have e2: "eax_of (tsc_second i) AND 1 \<noteq> 0"
    unfolding i_def by code_simp
  have s: "CurrentThread st = 0" "SleepValue st = 60" "lb_RandRange st = 20" "events st = []"
    by (simp_all add: st_def initial_state_def)
  have r: "(0::int) < 20" "(20::int) \<le> 60" "(60::int) + 20 < 2 ^ 32"
    by simp_all
  have v: "uint (hook_delay 60 20 i) = 53"
    using hook_delay_range [OF r, of i st] e1 e2 by (simp add: Let_def)
  then have u: "unat (hook_delay 60 20 i) = 53"
    by (simp add: unat_eq_nat_uint)
  have "sleeps (events (latebloom_hook i st)) = [53]"
    using hook_delay_range [OF r, of i st] s u by simp
  then show ?thesis
    using v unfolding i_def st_def by simp
qed

text \<open>
  The claim as stated, for every base and range with \<open>0 < R \<le> B\<close>, fails where the 32-bit
  addition of the hook wraps around: with the base \<open>2 ^ 32 - 1\<close>, the range 2, and counter
  values 1 and 0, the delay is 0, below \<open>B - R\<close>. And the offset is taken from the low 32
  bits of the counter, not from the whole counter: with base 60, range 3 and the counter at
  \<open>2 ^ 32 + 1\<close>, the delay is 61, whereas the counter modulo 3 is 2.
\<close>

theorem hook_delay_wrap_counterexample:
  "(0::int) < 2 \<and> (2::int) \<le> 4294967295 \<and>
   uint (hook_delay 4294967295 2
           \<lparr>gs_thread = 1, tsc_first = 1, tsc_second = 0, devfs_node = 0\<rparr>) = 0 \<and>
   \<not> (4294967295 - 2 \<le> uint (hook_delay 4294967295 2
           \<lparr>gs_thread = 1, tsc_first = 1, tsc_second = 0, devfs_node = 0\<rparr>)) \<and>
   sleeps (events (latebloom_hook \<lparr>gs_thread = 1, tsc_first = 1, tsc_second = 0, devfs_node = 0\<rparr>
             (initial_state\<lparr>SleepValue := 4294967295, lb_RandRange := 2\<rparr>))) = [0] \<and>
   uint (hook_delay 60 3
           \<lparr>gs_thread = 1, tsc_first = 0x100000001, tsc_second = 0, devfs_node = 0\<rparr>) = 61 \<and>
   60 + uint (0x100000001 :: 64 word) mod 3 = 62"
  by code_simp

subsection \<open>The pattern scan\<close>

text \<open>
  Claim C2, as the code has it. The scan starts with \<^verbatim>\<open>lb_jump_address\<close> zero and looks
  at the \<open>HOOK_WINDOW_SIZE\<close> addresses from \<^verbatim>\<open>ProbeAddress\<close>, none of which is the null
  address. The lowest offset at which any signature of the catalogue matches wins: if the
  bytes at offset \<open>K\<close> of the window are those of catalogue signature \<open>idx\<close> (an exact
  comparison of all its bytes) and no signature matches at a smaller offset, the scan ends
  with the pair \<open>(K, idx)\<close>: \<^verbatim>\<open>lb_jump_address\<close> is the address at offset \<open>K\<close> and
  \<^verbatim>\<open>WhichPattern\<close> is \<open>idx\<close>. It ends with \<^verbatim>\<open>lb_jump_address\<close> still zero, which is how
  the code reports that nothing was found, exactly when no signature matches at any offset
  of the window. Whatever it finds is the first offset at which a signature matches, with
  the signature that matches there, so scanning stops at the first success.
\<close>

theorem find_hook_scan:
  assumes "lb_jump_address st = 0"
    and "\<forall>k<HOOK_WINDOW_SIZE. ProbeAddress st + of_nat k \<noteq> 0"
  shows
    "(K < HOOK_WINDOW_SIZE \<and> idx < length BytePatterns \<and>
      memcmp_eq mem (ProbeAddress st + of_nat K) (BytePatterns ! idx) \<and>
      (\<forall>k<K. \<not> matches_at mem (ProbeAddress st + of_nat k)) \<longrightarrow>
        lb_jump_address (find_hook mem st) = ProbeAddress st + of_nat K \<and>
        WhichPattern (find_hook mem st) = idx) \<and>
     ((\<forall>k<HOOK_WINDOW_SIZE. \<not> matches_at mem (ProbeAddress st + of_nat k)) \<longleftrightarrow>
        lb_jump_address (find_hook mem st) = 0) \<and>
     (lb_jump_address (find_hook mem st) \<noteq> 0 \<longrightarrow>
        (\<exists>k<HOOK_WINDOW_SIZE.
           lb_jump_address (find_hook mem st) = ProbeAddress st + of_nat k \<and>
           WhichPattern (find_hook mem st) < length BytePatterns \<and>
           memcmp_eq mem (lb_jump_address (find_hook mem st))
             (BytePatterns ! WhichPattern (find_hook mem st)) \<and>
           (\<forall>j<k. \<not> matches_at mem (ProbeAddress st + of_nat j))))"
proof -
  define probe where "probe = ProbeAddress st"
  define res where "res = window_loop mem 0 (probe + of_nat 0) (WhichPattern st, 0)"
  have fh: "lb_jump_address (find_hook mem st) = snd res" "WhichPattern (find_hook mem st) = fst res"
    using assms(1) by (simp_all add: find_hook_def res_def probe_def split: prod.splits)
  have found: "res = (w, probe + of_nat k)"
    if "k < HOOK_WINDOW_SIZE" "w < length BytePatterns"
      "memcmp_eq mem (probe + of_nat k) (BytePatterns ! w)"
      "\<forall>j<k. \<not> matches_at mem (probe + of_nat j)" for k w
    unfolding res_def using that assms(2)
    by (intro window_loop_found) (auto simp: probe_def)
  have none: "snd res = 0" if "\<forall>k<HOOK_WINDOW_SIZE. \<not> matches_at mem (probe + of_nat k)"
    unfolding res_def using that by (rule window_loop_none)
  have some: "\<exists>k<HOOK_WINDOW_SIZE. \<exists>w<length BytePatterns. res = (w, probe + of_nat k) \<and>
        memcmp_eq mem (probe + of_nat k) (BytePatterns ! w) \<and>
        (\<forall>j<k. \<not> matches_at mem (probe + of_nat j))"
    if ex: "\<not> (\<forall>k<HOOK_WINDOW_SIZE. \<not> matches_at mem (probe + of_nat k))"
  proof -
    obtain k where "k < HOOK_WINDOW_SIZE" "matches_at mem (probe + of_nat k)"
      using ex by blast
    then obtain K w where Kw: "K < HOOK_WINDOW_SIZE" "w < length BytePatterns"
      "memcmp_eq mem (probe + of_nat K) (BytePatterns ! w)"
      "\<forall>j<K. \<not> matches_at mem (probe + of_nat j)"
      by (rule first_match_exists)
    then have "res = (w, probe + of_nat K)"
      by (rule found)
    then show ?thesis
      using Kw by blast
  qed
  have nz: "snd res \<noteq> 0" if "\<not> (\<forall>k<HOOK_WINDOW_SIZE. \<not> matches_at mem (probe + of_nat k))"
    using some [OF that] assms(2) by (auto simp: probe_def)
  have p1: "K < HOOK_WINDOW_SIZE \<and> idx < length BytePatterns \<and>
      memcmp_eq mem (probe + of_nat K) (BytePatterns ! idx) \<and>
      (\<forall>k<K. \<not> matches_at mem (probe + of_nat k)) \<longrightarrow>
        snd res = probe + of_nat K \<and> fst res = idx"
    using found [of K idx] by auto
  have p2: "(\<forall>k<HOOK_WINDOW_SIZE. \<not> matches_at mem (probe + of_nat k)) \<longleftrightarrow> snd res = 0"
    using none nz by blast
  have p3: "snd res \<noteq> 0 \<longrightarrow>
        (\<exists>k<HOOK_WINDOW_SIZE. snd res = probe + of_nat k \<and> fst res < length BytePatterns \<and>
           memcmp_eq mem (snd res) (BytePatterns ! fst res) \<and>
           (\<forall>j<k. \<not> matches_at mem (probe + of_nat j)))"
  proof
    assume "snd res \<noteq> 0"
    then have "\<not> (\<forall>k<HOOK_WINDOW_SIZE. \<not> matches_at mem (probe + of_nat k))"
      using none by blast
    from some [OF this] show "\<exists>k<HOOK_WINDOW_SIZE. snd res = probe + of_nat k \<and>
           fst res < length BytePatterns \<and>
           memcmp_eq mem (snd res) (BytePatterns ! fst res) \<and>
           (\<forall>j<k. \<not> matches_at mem (probe + of_nat j))"
      by auto
  qed
  show ?thesis
    unfolding fh using p1 p2 p3 unfolding probe_def by blast
qed

theorem find_hook_scan_witness:
  "lb_jump_address
     (find_hook (\<lambda>a. if 0x1002 \<le> a \<and> a < 0x1010 then BytePattern115b2 ! unat (a - 0x1002) else 0)
        (initial_state\<lparr>ProbeAddress := 0x1000\<rparr>)) = 0x1002 \<and>
   WhichPattern
     (find_hook (\<lambda>a. if 0x1002 \<le> a \<and> a < 0x1010 then BytePattern115b2 ! unat (a - 0x1002) else 0)
        (initial_state\<lparr>ProbeAddress := 0x1000\<rparr>)) = 1 \<and>
   lb_jump_address (find_hook (\<lambda>a. 0) (initial_state\<lparr>ProbeAddress := 0x1000\<rparr>)) = 0"
proof -
  let ?mem = "(\<lambda>a. if 0x1002 \<le> a \<and> a < 0x1010 then BytePattern115b2 ! unat (a - 0x1002) else 0)
                :: memory"
  let ?zero = "(\<lambda>a. 0) :: memory"
  let ?st = "initial_state\<lparr>ProbeAddress := 0x1000\<rparr>"
  have ja: "lb_jump_address ?st = 0" and pa: "ProbeAddress ?st = 0x1000"
    by (simp_all add: initial_state_def)
  have nn: "\<forall>k<HOOK_WINDOW_SIZE. ProbeAddress ?st + of_nat k \<noteq> 0"
    unfolding pa by (intro allI impI window_not_null [where n = HOOK_WINDOW_SIZE])
      (simp_all add: HOOK_WINDOW_SIZE_def)
  have K: "(2::nat) < HOOK_WINDOW_SIZE" and idx: "(1::nat) < length BytePatterns"
    by (simp_all add: HOOK_WINDOW_SIZE_def BytePatterns_def)
  have m: "memcmp_eq ?mem (ProbeAddress ?st + of_nat 2) (BytePatterns ! 1)"
    unfolding pa by code_simp
  have "?mem (0x1000 + of_nat k) \<noteq> 0x48" if "k < 2" for k
    using that by (auto simp: less_2_cases_iff)
  then have before: "\<forall>k<2. \<not> matches_at ?mem (ProbeAddress ?st + of_nat k)"
    unfolding pa using matches_at_first_byte by blast
  have none: "\<forall>k<HOOK_WINDOW_SIZE. \<not> matches_at ?zero (ProbeAddress ?st + of_nat k)"
    using matches_at_first_byte [of ?zero] by auto
  have f1: "lb_jump_address (find_hook ?mem ?st) = 0x1002"
    and f2: "WhichPattern (find_hook ?mem ?st) = 1"
    using find_hook_scan [OF ja nn, of 2 1 ?mem] K idx m before by (simp_all add: pa)
  have f3: "lb_jump_address (find_hook ?zero ?st) = 0"
    using find_hook_scan [OF ja nn, of 0 0 ?zero] none by blast
  show ?thesis
    by (intro conjI f1 f2 f3)
qed

text \<open>
  The claim as stated fails where it lets the first catalogue entry that matches at any
  offset win, and where it promises \<open>(K, index)\<close> for any signature at offset \<open>K\<close>: the
  outer loop is over the offsets and the inner one over the catalogue. With the third entry
  at offset 0 and the first entry at offset 20, the first entry does match at offset 20 of
  the window, and the scan returns offset 0 with index 2.
\<close>

theorem find_hook_first_entry_counterexample:
  "(20::nat) < HOOK_WINDOW_SIZE \<and>
   memcmp_eq two_signatures (0x1000 + 20) (BytePatterns ! 0) \<and>
   memcmp_eq two_signatures 0x1000 (BytePatterns ! 2) \<and>
   lb_jump_address (find_hook two_signatures (initial_state\<lparr>ProbeAddress := 0x1000\<rparr>))
     = 0x1000 \<and>
   WhichPattern (find_hook two_signatures (initial_state\<lparr>ProbeAddress := 0x1000\<rparr>)) = 2"
  by code_simp


subsection \<open>Finding a segment\<close>




subsection \<open>Looking a symbol up\<close>

text \<open>
  Claim C8. Once the statics are populated, \<^verbatim>\<open>SymbolLookup\<close> returns, leaves the statics
  as they are, and its result is that of a linear scan of the \<^verbatim>\<open>nsyms\<close> entries of the name
  list in order: the value of the first entry whose string (at its offset in the string
  table) equals the name, or \<^verbatim>\<open>NULL\<close>, with the ``not found'' messages, when no entry
  has the name.
\<close>

theorem SymbolLookup_linear_scan:
  assumes "populated s"
  shows "SymbolLookup k s name =
           Some (first_symbol k s name, s,
                 if first_symbol k s name = 0 then symbol_not_found name else [])"
  by (rule SymbolLookup_populated [OF assms])

theorem SymbolLookup_linear_scan_witness:
  "SymbolLookup example_kernel example_statics ''_PE_boot_args''
     = Some (0xffffff8001400000, example_statics, []) \<and>
   map_option fst (SymbolLookup example_kernel example_statics ''_nope'') = Some 0"
proof -
  have a: "first_symbol example_kernel example_statics ''_PE_boot_args'' = 0xffffff8001400000"
    by code_simp
  have b: "first_symbol example_kernel example_statics ''_nope'' = 0"
    by code_simp
  show ?thesis
    using SymbolLookup_linear_scan [OF example_populated, of example_kernel "''_PE_boot_args''"]
      SymbolLookup_linear_scan [OF example_populated, of example_kernel "''_nope''"] a b
    by simp
qed

text \<open>
  Claim C9. Once the three statics are populated, every later \<^verbatim>\<open>SymbolLookup\<close> returns
  with the statics unchanged; its result does not depend on the image's header and load
  commands (a kernel that shows the same symbol and string tables gives the same result,
  whatever its load commands are), so none of them is parsed again; any sequence of lookups
  leaves the statics as they are and gives each name the same address each time; and the
  lookup that populated the statics, repeated, returns the identical result.
\<close>

theorem SymbolLookup_resolved_once:
  assumes "populated s"
  shows "map_option (fst \<circ> snd) (SymbolLookup k s name) = Some s \<and>
         (same_symbols k k' \<longrightarrow> SymbolLookup k' s name = SymbolLookup k s name) \<and>
         lookup_all k s names = Some (map (first_symbol k s) names, s) \<and>
         (\<forall>s0 a es. SymbolLookup k s0 name = Some (a, s, es) \<longrightarrow>
                     SymbolLookup k s name = Some (a, s, es))"
proof -
  have a: "map_option (fst \<circ> snd) (SymbolLookup k s name) = Some s"
    by (simp add: SymbolLookup_populated [OF assms])
  have b: "SymbolLookup k' s name = SymbolLookup k s name" if "same_symbols k k'"
    by (simp add: SymbolLookup_populated [OF assms] first_symbol_same_symbols [OF that])
  have c: "lookup_all k s names = Some (map (first_symbol k s) names, s)"
    by (rule lookup_all_populated [OF assms])
  have d: "SymbolLookup k s name = Some (a, s, es)"
    if "SymbolLookup k s0 name = Some (a, s, es)" for s0 a es
    using that assms by (rule SymbolLookup_repeat)
  show ?thesis
    using a b c d by blast
qed

theorem SymbolLookup_resolved_once_witness:
  "SymbolLookup example_kernel initial_statics ''_PE_boot_args''
     = Some (0xffffff8001400000, example_statics, []) \<and>
   SymbolLookup example_kernel example_statics ''_PE_boot_args''
     = Some (0xffffff8001400000, example_statics, []) \<and>
   lookup_all example_kernel example_statics [''_printf'', ''_PE_boot_args'', ''_printf'']
     = Some ([0xffffff8001300000, 0xffffff8001400000, 0xffffff8001300000], example_statics)"
proof -
  have first: "SymbolLookup example_kernel initial_statics ''_PE_boot_args''
     = Some (0xffffff8001400000, example_statics, [])"
    by code_simp
  have v: "map (first_symbol example_kernel example_statics)
             [''_printf'', ''_PE_boot_args'', ''_printf'']
           = [0xffffff8001300000, 0xffffff8001400000, 0xffffff8001300000]"
    by code_simp
  note inst = SymbolLookup_resolved_once [OF example_populated,
      of example_kernel "''_PE_boot_args''" example_kernel
         "[''_printf'', ''_PE_boot_args'', ''_printf'']"]
  have again: "SymbolLookup example_kernel example_statics ''_PE_boot_args''
     = Some (0xffffff8001400000, example_statics, [])"
    using inst first by blast
  have many: "lookup_all example_kernel example_statics [''_printf'', ''_PE_boot_args'', ''_printf'']
     = Some ([0xffffff8001300000, 0xffffff8001400000, 0xffffff8001300000], example_statics)"
    using inst v by simp
  show ?thesis
    by (intro conjI first again many)
qed

subsection \<open>Kernels before Big Sur\<close>

text \<open>
  Claim C10. If the major version of the running kernel is below 20, \<^verbatim>\<open>latebloom_start\<close>
  prints its message, sleeps four seconds, and returns: the result is the world it started
  from with these two events added. So the statics of the symbol lookup are as before (no
  symbol is resolved), the code bytes are as before (no hook is installed), and every module
  variable has the value it had (no boot-argument is parsed, no device is registered); from
  the initial world, they all have their initial values.
\<close>

theorem latebloom_start_before_BigSur:
  assumes "version_major (kern env) < BIGSUR_XNU_MAJOR_VERSION"
  shows "latebloom_start env w =
           Some (w\<lparr>lb := (lb w)\<lparr>events := events (lb w) @
                   [Printf ''OS major version == %d, aborting (HOOK NOT PLACED).''
                      [ArgInt (version_major (kern env))],
                    IOSleep 4000]\<rparr>\<rparr>) \<and>
         map_option statics (latebloom_start env w) = Some (statics w) \<and>
         map_option code_mem (latebloom_start env w) = Some (code_mem w) \<and>
         map_option (\<lambda>w'. (lb w')\<lparr>events := []\<rparr>) (latebloom_start env w)
           = Some ((lb w)\<lparr>events := []\<rparr>)"
  using assms by (simp add: latebloom_start_def emit_def MILLISECONDS_PER_SECOND_def)

theorem latebloom_start_before_BigSur_witness:
  "latebloom_start (example_env\<lparr>kern := (kern example_env)\<lparr>version_major := 19\<rparr>\<rparr>)
     (initial_world example_code)
   = Some \<lparr> lb = initial_state\<lparr>events :=
               [Printf ''OS major version == %d, aborting (HOOK NOT PLACED).'' [ArgInt 19],
                IOSleep 4000]\<rparr>,
            statics = initial_statics, code_mem = example_code \<rparr>"
proof -
  let ?env = "example_env\<lparr>kern := (kern example_env)\<lparr>version_major := 19\<rparr>\<rparr>"
  have old: "version_major (kern ?env) < BIGSUR_XNU_MAJOR_VERSION"
    by (simp add: BIGSUR_XNU_MAJOR_VERSION_def)
  show ?thesis
    using latebloom_start_before_BigSur [OF old, of "initial_world example_code"]
    by (simp add: initial_world_def initial_state_def)
qed

end
